theory Spec2Isabelle
  imports Main
begin

section \<open>The pipeline executor of \<^verbatim>\<open>src/Processors/Executors/PipelineExecutor.cpp\<close>\<close>

text \<open>
  The development embeds the sequential code of \<^verbatim>\<open>PipelineExecutor\<close>: the seeding of
  the childless nodes, pipeline expansion, the prepare walk over the graph
  (\<^verbatim>\<open>prepareProcessor\<close>), initialisation, the tail of \<^verbatim>\<open>execute\<close>, finalisation and the
  diagnostic dump. Mutexes and the upgradeable pipeline lock guard these functions against
  other threads and have no effect on what one call computes; they are left out, and
  every function is a state transformer on the executor object. The debug-only stopwatch
  fields and trace logs (\<^verbatim>\<open>#ifndef NDEBUG\<close>) are left out as well, except for the text
  that the stopwatches add to the dump, which is a parameter.

  Nodes and processors are referred to by index. The code indexes its tables without a
  check, the indices being valid by construction; the model reads with \<open>!\<close> and writes
  with list update, and a theorem names the bounds that it needs.
\<close>

subsection \<open>Data model\<close>

text \<open>\<^verbatim>\<open>ExecutingGraph::ExecStatus\<close>, the status of a node.\<close>

datatype ExecStatus = Idle | Preparing | Executing | Finished

text \<open>\<^verbatim>\<open>IProcessor::Status\<close>, what \<^verbatim>\<open>prepare\<close> returns (\<^verbatim>\<open>Status_Finished\<close> is
  \<^verbatim>\<open>IProcessor::Status::Finished\<close>).\<close>

datatype Status = NeedData | PortFull | Status_Finished | Ready | Async | ExpandPipeline

text \<open>
  \<^verbatim>\<open>ExecutingGraph::Edge\<close>. The executor reads four fields of an edge, none of which
  changes once the edge exists, so an \<^verbatim>\<open>Edge *\<close> is modelled by these fields. The
  \<^verbatim>\<open>update_info\<close> of an edge is shared with the port it belongs to (\<^verbatim>\<open>Port.h\<close>) and is
  part of the store of processor objects.
\<close>

record Edge =
  to :: nat
  backward :: bool
  input_port_number :: nat
  output_port_number :: nat

text \<open>
  \<^verbatim>\<open>ExecutingGraph::Node\<close>. \<open>processor\<close> is the address of the processor object (an index
  into \<open>heap\<close> below); port lists hold port numbers; the \<^verbatim>\<open>post_updated\<close> lists hold edges;
  \<open>exception\<close> is the \<^verbatim>\<open>std::exception_ptr\<close>, \<open>None\<close> when null.
\<close>

record 'x Node =
  processor :: nat
  direct_edges :: "Edge list"
  back_edges :: "Edge list"
  status :: ExecStatus
  last_processor_status :: Status
  updated_input_ports :: "nat list"
  updated_output_ports :: "nat list"
  post_updated_input_ports :: "Edge list"
  post_updated_output_ports :: "Edge list"
  exception :: "'x option"
  num_executed_jobs :: nat

text \<open>
  A processor object. \<^verbatim>\<open>IProcessor.h\<close> is not among the sources: of a processor the
  model keeps the description, which \<^verbatim>\<open>setDescription\<close> is taken to store, and the rest
  of its state, of which the executor knows nothing.
\<close>

record 'b IProcessor =
  processor_description :: string
  impl :: 'b

definition setDescription :: "string \<Rightarrow> 'b IProcessor \<Rightarrow> 'b IProcessor" where
  "setDescription description p = p\<lparr>processor_description := description\<rparr>"

text \<open>A call of \<^verbatim>\<open>prepare\<close> throws or returns a status.\<close>

datatype 'x prepare_outcome = Throws 'x | Returns Status

text \<open>
  The code the executor calls and that is not part of this file, as parameters. A
  processor shares its ports, and what they hold, with its neighbours, so each method
  acts on the whole store of processor objects, \<open>h\<close>, and is told the address \<open>a\<close> of the
  processor it is called on:
  \<^item> \<open>IProcessor_prepare h a inputs outputs\<close>: the outcome of \<^verbatim>\<open>prepare(inputs, outputs)\<close>,
    the store after the call, and the edges that the ports of the processor appended
    to the node's \<^verbatim>\<open>post_updated_input_ports\<close> and \<^verbatim>\<open>post_updated_output_ports\<close> during
    the call;
  \<^item> \<open>IProcessor_expandPipeline h a\<close>: the exception or the new processors of
    \<^verbatim>\<open>expandPipeline()\<close>, and the store after the call;
  \<^item> \<open>IProcessor_onUpdatePorts h a\<close>: the store after \<^verbatim>\<open>onUpdatePorts()\<close>;
  \<^item> \<open>IProcessor_getName\<close>: the name of a processor;
  \<^item> \<open>UpdateInfo_trigger edge h\<close>: the store after \<^verbatim>\<open>edge->update_info.trigger()\<close>;
  \<^item> \<open>ExecutingGraph_expandPipeline h processors nodes\<close>: the node table after
    \<^verbatim>\<open>graph->expandPipeline(processors)\<close> and the indices of the updated nodes;
  \<^item> \<open>printPipeline\<close>: the text printed for a list of processors and their statuses;
  \<^item> \<open>debug_timings\<close>: the timing text a debug build adds to a node's description
    (empty in a release build).
\<close>

record ('b, 'x) Collaborators =
  IProcessor_prepare ::
    "'b IProcessor list \<Rightarrow> nat \<Rightarrow> nat list \<Rightarrow> nat list \<Rightarrow>
       'x prepare_outcome \<times> 'b IProcessor list \<times> Edge list \<times> Edge list"
  IProcessor_expandPipeline ::
    "'b IProcessor list \<Rightarrow> nat \<Rightarrow> ('x + 'b IProcessor list) \<times> 'b IProcessor list"
  IProcessor_onUpdatePorts :: "'b IProcessor list \<Rightarrow> nat \<Rightarrow> 'b IProcessor list"
  IProcessor_getName :: "'b IProcessor \<Rightarrow> string"
  UpdateInfo_trigger :: "Edge \<Rightarrow> 'b IProcessor list \<Rightarrow> 'b IProcessor list"
  ExecutingGraph_expandPipeline ::
    "'b IProcessor list \<Rightarrow> nat list \<Rightarrow> 'x Node list \<Rightarrow> 'x Node list \<times> nat list"
  printPipeline :: "'b IProcessor list \<Rightarrow> Status list \<Rightarrow> string"
  debug_timings :: "'x Node \<Rightarrow> string"

text \<open>
  Modelled from the spec: \<^verbatim>\<open>ExecutorTasks\<close> is not part of the sources. The spec gives it
  a one-way \<open>finished\<close> flag, a global ready queue, and one context per thread with a
  sticky exception slot; \<open>init\<close> creates the contexts, \<open>fill\<close> enqueues the ready nodes,
  and \<open>rethrowFirstThreadException\<close> rethrows the exception of the first context that
  holds one.
\<close>

record 'x ExecutorTasks =
  finished :: bool
  task_queue :: "nat list"
  executor_contexts :: "'x option list"

definition ExecutorTasks_init :: "nat \<Rightarrow> 'x ExecutorTasks \<Rightarrow> 'x ExecutorTasks" where
  "ExecutorTasks_init num_threads t = t\<lparr>executor_contexts := replicate num_threads None\<rparr>"

definition ExecutorTasks_fill :: "nat list \<Rightarrow> 'x ExecutorTasks \<Rightarrow> 'x ExecutorTasks" where
  "ExecutorTasks_fill queue t = t\<lparr>task_queue := task_queue t @ queue\<rparr>"

fun rethrowFirstThreadException :: "'x option list \<Rightarrow> 'x option" where
  "rethrowFirstThreadException [] = None"
| "rethrowFirstThreadException (context_exception # contexts) =
     (case context_exception of
        Some e \<Rightarrow> Some e
      | None \<Rightarrow> rethrowFirstThreadException contexts)"

text \<open>
  The executor object. \<open>heap\<close> holds the processor objects, a pointer to a processor
  being its index; \<open>processors\<close> is the flat list \<^verbatim>\<open>Processors & processors\<close> of
  (shared) pointers; \<open>nodes\<close> is \<^verbatim>\<open>graph->nodes\<close>, a node pointer being its index;
  \<open>process_list_element\<close> is \<open>None\<close> for a null pointer and \<open>Some k\<close> for a query status
  whose \<^verbatim>\<open>isKilled()\<close> returns \<open>k\<close>.
\<close>

record ('b, 'x) PipelineExecutor =
  heap :: "'b IProcessor list"
  processors :: "nat list"
  nodes :: "'x Node list"
  process_list_element :: "bool option"
  cancelled :: bool
  is_execution_initialized :: bool
  tasks :: "'x ExecutorTasks"

text \<open>
  What a function of the executor throws: an exception the executor makes itself, with
  its error code and text, or a captured exception that it rethrows.
\<close>

datatype ErrorCode = LOGICAL_ERROR | QUERY_WAS_CANCELLED

datatype 'x thrown = Exception ErrorCode string | Rethrown 'x

subsection \<open>addChildlessProcessorsToStack\<close>

text \<open>A \<^verbatim>\<open>Stack\<close> is a list whose head is the top; a \<^verbatim>\<open>Queue\<close> is a list whose head
  is the front.\<close>

definition addChildless_body :: "nat \<Rightarrow> nat list \<times> 'x Node list \<Rightarrow> nat list \<times> 'x Node list" where
  "addChildless_body proc = (\<lambda>(stack, ns).
     if direct_edges (ns ! proc) = []
     then (proc # stack, ns[proc := (ns ! proc)\<lparr>status := Preparing\<rparr>])
     else (stack, ns))"

definition addChildlessProcessorsToStack ::
  "nat list \<Rightarrow> ('b, 'x) PipelineExecutor \<Rightarrow> nat list \<times> ('b, 'x) PipelineExecutor" where
  "addChildlessProcessorsToStack stack s =
     (let num_processors = length (processors s);
          (stack', ns) = fold addChildless_body [0..<num_processors] (stack, nodes s)
      in (stack', s\<lparr>nodes := ns\<rparr>))"

subsection \<open>expandPipeline\<close>

text \<open>
  The two vectors of edge counts taken before the graph grows: \<open>num_processors\<close> entries,
  zero for an index that has no node yet.
\<close>

definition edge_sizes :: "('x Node \<Rightarrow> Edge list) \<Rightarrow> nat \<Rightarrow> 'x Node list \<Rightarrow> nat list" where
  "edge_sizes edges_of num_processors ns =
     map (\<lambda>node. if node < length ns then length (edges_of (ns ! node)) else 0)
       [0..<num_processors]"

text \<open>The body of the loop over \<^verbatim>\<open>updated_nodes\<close>.\<close>

definition stage_updated_node ::
  "nat list \<Rightarrow> nat list \<Rightarrow> nat \<Rightarrow> nat list \<times> 'x Node list \<Rightarrow> nat list \<times> 'x Node list" where
  "stage_updated_node back_edges_sizes direct_edge_sizes updated_node = (\<lambda>(stack, ns).
     let node = ns ! updated_node;
         num_direct_edges = length (direct_edges node);
         num_back_edges = length (back_edges node);
         node1 = node\<lparr>
           updated_input_ports :=
             updated_input_ports node @ [back_edges_sizes ! updated_node ..< num_back_edges],
           updated_output_ports :=
             updated_output_ports node @ [direct_edge_sizes ! updated_node ..< num_direct_edges]\<rparr>
     in if status node1 = Idle
        then (updated_node # stack, ns[updated_node := node1\<lparr>status := Preparing\<rparr>])
        else (stack, ns[updated_node := node1]))"

definition expandPipeline ::
  "('b, 'x) Collaborators \<Rightarrow> nat list \<Rightarrow> nat \<Rightarrow> ('b, 'x) PipelineExecutor \<Rightarrow>
     bool \<times> nat list \<times> ('b, 'x) PipelineExecutor" where
  "expandPipeline env stack pid s =
     (let cur_node = nodes s ! pid;
          (result, heap1) = IProcessor_expandPipeline env (heap s) (processor cur_node)
      in case result of
           Inl e \<Rightarrow>
             (False, stack,
              s\<lparr>heap := heap1, nodes := (nodes s)[pid := cur_node\<lparr>exception := Some e\<rparr>]\<rparr>)
         | Inr new_processors \<Rightarrow>
             (let processors1 =
                    processors s @ [length heap1 ..< length heap1 + length new_processors];
                  heap2 = heap1 @ new_processors;
                  num_processors = length processors1;
                  back_edges_sizes = edge_sizes back_edges num_processors (nodes s);
                  direct_edge_sizes = edge_sizes direct_edges num_processors (nodes s);
                  (nodes1, updated_nodes) =
                    ExecutingGraph_expandPipeline env heap2 processors1 (nodes s);
                  (stack', nodes2) =
                    fold (stage_updated_node back_edges_sizes direct_edge_sizes) updated_nodes
                      (stack, nodes1)
              in (True, stack', s\<lparr>heap := heap2, processors := processors1, nodes := nodes2\<rparr>)))"

subsection \<open>prepareProcessor\<close>

text \<open>
  The variables of one call: the executor, the two queues passed by reference, and the
  two work stacks.
\<close>

record ('b, 'x) Walk =
  executor :: "('b, 'x) PipelineExecutor"
  queue :: "nat list"
  async_queue :: "nat list"
  updated_edges :: "Edge list"
  updated_processors :: "nat list"

text \<open>The branch of the loop body that pops an edge and notifies its destination.\<close>

definition notify_edge :: "('b, 'x) Collaborators \<Rightarrow> ('b, 'x) Walk \<Rightarrow> ('b, 'x) Walk" where
  "notify_edge env w =
     (case updated_edges w of
        [] \<Rightarrow> w
      | edge # rest \<Rightarrow>
          (let s = executor w;
               node = nodes s ! to edge
           in if status node = Finished then w\<lparr>updated_edges := rest\<rparr>
              else
                (let node1 =
                       (if backward edge
                        then node\<lparr>updated_output_ports :=
                                    updated_output_ports node @ [output_port_number edge]\<rparr>
                        else node\<lparr>updated_input_ports :=
                                    updated_input_ports node @ [input_port_number edge]\<rparr>)
                 in if status node = Idle
                    then w\<lparr>executor := s\<lparr>nodes := (nodes s)[to edge := node1\<lparr>status := Preparing\<rparr>]\<rparr>,
                           updated_edges := rest,
                           updated_processors := to edge # updated_processors w\<rparr>
                    else w\<lparr>executor :=
                             s\<lparr>heap := IProcessor_onUpdatePorts env (heap s) (processor node),
                               nodes := (nodes s)[to edge := node1]\<rparr>,
                           updated_edges := rest\<rparr>)))"

text \<open>
  Pushing onto a stack, and the two reverse loops over the dirty edges of a node: each
  pushes the edges, last first, and triggers the update info of each edge it pushes.
\<close>

definition push :: "'a \<Rightarrow> 'a list \<Rightarrow> 'a list" where
  "push x stack = x # stack"

definition push_post_updated :: "'x Node \<Rightarrow> Edge list \<Rightarrow> Edge list" where
  "push_post_updated node edges =
     fold push (rev (post_updated_input_ports node))
       (fold push (rev (post_updated_output_ports node)) edges)"

definition trigger_post_updated ::
  "('b, 'x) Collaborators \<Rightarrow> 'x Node \<Rightarrow> 'b IProcessor list \<Rightarrow> 'b IProcessor list" where
  "trigger_post_updated env node h =
     fold (UpdateInfo_trigger env) (rev (post_updated_input_ports node))
       (fold (UpdateInfo_trigger env) (rev (post_updated_output_ports node)) h)"

text \<open>The \<^verbatim>\<open>switch\<close> on the status that \<^verbatim>\<open>prepare\<close> returned: the node, the two queues
  and \<^verbatim>\<open>need_expand_pipeline\<close>.\<close>

fun switch_status ::
  "Status \<Rightarrow> nat \<Rightarrow> 'x Node \<Rightarrow> nat list \<Rightarrow> nat list \<Rightarrow> 'x Node \<times> nat list \<times> nat list \<times> bool" where
  "switch_status NeedData pid node q aq = (node\<lparr>status := Idle\<rparr>, q, aq, False)"
| "switch_status PortFull pid node q aq = (node\<lparr>status := Idle\<rparr>, q, aq, False)"
| "switch_status Status_Finished pid node q aq = (node\<lparr>status := Finished\<rparr>, q, aq, False)"
| "switch_status Ready pid node q aq = (node\<lparr>status := Executing\<rparr>, q @ [pid], aq, False)"
| "switch_status Async pid node q aq = (node\<lparr>status := Executing\<rparr>, q, aq @ [pid], False)"
| "switch_status ExpandPipeline pid node q aq = (node, q, aq, True)"

text \<open>
  The call of \<^verbatim>\<open>prepare\<close> inside its \<^verbatim>\<open>try\<close> block, with the handler that stores the
  exception on the node, and the two \<^verbatim>\<open>clear()\<close> calls that follow a call that returned.
\<close>

definition call_prepare ::
  "('b, 'x) Collaborators \<Rightarrow> 'b IProcessor list \<Rightarrow> 'x Node \<Rightarrow>
     'x prepare_outcome \<times> 'b IProcessor list \<times> 'x Node" where
  "call_prepare env h node =
     (let (outcome, h1, dirty_inputs, dirty_outputs) =
            IProcessor_prepare env h (processor node)
              (updated_input_ports node) (updated_output_ports node);
          node0 = node\<lparr>
            post_updated_input_ports := post_updated_input_ports node @ dirty_inputs,
            post_updated_output_ports := post_updated_output_ports node @ dirty_outputs\<rparr>
      in case outcome of
           Throws e \<Rightarrow> (outcome, h1, node0\<lparr>exception := Some e\<rparr>)
         | Returns st \<Rightarrow>
             (outcome, h1,
              node0\<lparr>last_processor_status := st,
                    updated_input_ports := [],
                    updated_output_ports := []\<rparr>))"

text \<open>
  The branch of the loop body that pops a node and prepares it. The result is \<open>Some b\<close>
  when the body executes \<^verbatim>\<open>return b\<close>, and \<open>None\<close> when the loop goes on.
\<close>

definition prepare_node ::
  "('b, 'x) Collaborators \<Rightarrow> ('b, 'x) Walk \<Rightarrow> bool option \<times> ('b, 'x) Walk" where
  "prepare_node env w =
     (case updated_processors w of
        [] \<Rightarrow> (None, w)
      | pid # rest \<Rightarrow>
          (let s = executor w;
               (outcome, heap1, node1) = call_prepare env (heap s) (nodes s ! pid)
           in case outcome of
                Throws e \<Rightarrow>
                  (Some False,
                   w\<lparr>executor := s\<lparr>heap := heap1, nodes := (nodes s)[pid := node1]\<rparr>,
                     updated_processors := rest\<rparr>)
              | Returns st \<Rightarrow>
                  (let (node2, queue1, async_queue1, need_expand_pipeline) =
                         switch_status st pid node1 (queue w) (async_queue w)
                   in if \<not> need_expand_pipeline
                      then
                        (None,
                         w\<lparr>executor :=
                             s\<lparr>heap := trigger_post_updated env node2 heap1,
                               nodes := (nodes s)[pid := node2\<lparr>post_updated_input_ports := [],
                                                             post_updated_output_ports := []\<rparr>]\<rparr>,
                           queue := queue1,
                           async_queue := async_queue1,
                           updated_edges := push_post_updated node2 (updated_edges w),
                           updated_processors := rest\<rparr>)
                      else
                        (let (expanded, stack, s1) =
                               expandPipeline env rest pid
                                 (s\<lparr>heap := heap1, nodes := (nodes s)[pid := node2]\<rparr>)
                         in if \<not> expanded
                            then (Some False,
                                  w\<lparr>executor := s1, queue := queue1, async_queue := async_queue1,
                                    updated_processors := stack\<rparr>)
                            else (None,
                                  w\<lparr>executor := s1, queue := queue1, async_queue := async_queue1,
                                    updated_processors := push pid stack\<rparr>)))))"

definition prepareProcessor_body ::
  "('b, 'x) Collaborators \<Rightarrow> ('b, 'x) Walk \<Rightarrow> bool option \<times> ('b, 'x) Walk" where
  "prepareProcessor_body env w =
     (if updated_processors w = [] then (None, notify_edge env w) else prepare_node env w)"

text \<open>
  The \<^verbatim>\<open>while\<close> loop. A processor may answer \<^verbatim>\<open>ExpandPipeline\<close> for ever, so the loop
  takes fuel, one unit for each test of the loop condition; \<open>None\<close> means that the fuel
  ran out before the loop ended.
\<close>

fun prepareProcessor_loop ::
  "nat \<Rightarrow> ('b, 'x) Collaborators \<Rightarrow> ('b, 'x) Walk \<Rightarrow> (bool \<times> ('b, 'x) Walk) option" where
  "prepareProcessor_loop 0 env w = None"
| "prepareProcessor_loop (Suc fuel) env w =
     (if updated_processors w = [] \<and> updated_edges w = [] then Some (True, w)
      else case prepareProcessor_body env w of
             (Some b, w') \<Rightarrow> Some (b, w')
           | (None, w') \<Rightarrow> prepareProcessor_loop fuel env w')"

definition prepareProcessor ::
  "nat \<Rightarrow> ('b, 'x) Collaborators \<Rightarrow> nat \<Rightarrow> nat list \<Rightarrow> nat list \<Rightarrow> ('b, 'x) PipelineExecutor \<Rightarrow>
     (bool \<times> ('b, 'x) Walk) option" where
  "prepareProcessor fuel env pid q aq s =
     prepareProcessor_loop fuel env
       \<lparr>executor = s, queue = q, async_queue = aq, updated_edges = [],
        updated_processors = push pid []\<rparr>"

subsection \<open>initializeExecution\<close>

text \<open>
  The loop over the seeded stack. The value of \<^verbatim>\<open>prepareProcessor\<close> is not used. The
  result is the exception thrown, if any, and the queue, the async queue and the
  executor where the loop stops.
\<close>

fun initializeExecution_loop ::
  "nat \<Rightarrow> ('b, 'x) Collaborators \<Rightarrow> nat list \<Rightarrow> nat list \<Rightarrow> nat list \<Rightarrow>
     ('b, 'x) PipelineExecutor \<Rightarrow>
     ('x thrown option \<times> nat list \<times> nat list \<times> ('b, 'x) PipelineExecutor) option" where
  "initializeExecution_loop fuel env [] q aq s = Some (None, q, aq, s)"
| "initializeExecution_loop fuel env (proc # stack) q aq s =
     (case prepareProcessor fuel env proc q aq s of
        None \<Rightarrow> None
      | Some (prepared, w) \<Rightarrow>
          if async_queue w \<noteq> []
          then Some (Some (Exception LOGICAL_ERROR
                       (''Async is only possible after work() call. Processor '' @
                        IProcessor_getName env
                          (heap (executor w) !
                             processor (nodes (executor w) ! hd (async_queue w))))),
                     queue w, async_queue w, executor w)
          else initializeExecution_loop fuel env stack (queue w) (async_queue w) (executor w))"

definition initializeExecution ::
  "nat \<Rightarrow> ('b, 'x) Collaborators \<Rightarrow> nat \<Rightarrow> ('b, 'x) PipelineExecutor \<Rightarrow>
     (('x thrown + unit) \<times> nat list \<times> nat list \<times> ('b, 'x) PipelineExecutor) option" where
  "initializeExecution fuel env num_threads s =
     (let s1 = s\<lparr>is_execution_initialized := True\<rparr>;
          (stack, s2) = addChildlessProcessorsToStack [] s1;
          s3 = s2\<lparr>tasks := ExecutorTasks_init num_threads (tasks s2)\<rparr>
      in case initializeExecution_loop fuel env stack [] [] s3 of
           None \<Rightarrow> None
         | Some (Some e, q, aq, s4) \<Rightarrow> Some (Inl e, q, aq, s4)
         | Some (None, q, aq, s4) \<Rightarrow>
             Some (Inr (), q, aq, s4\<lparr>tasks := ExecutorTasks_fill q (tasks s4)\<rparr>))"

subsection \<open>dumpPipeline and finalizeExecution\<close>

text \<open>Decimal digits of a number, as \<^verbatim>\<open>operator<<\<close> writes a \<^verbatim>\<open>UInt64\<close>.\<close>

fun writeIntText :: "nat \<Rightarrow> string" where
  "writeIntText n =
     (if n < 10 then [char_of (48 + n)]
      else writeIntText (n div 10) @ [char_of (48 + n mod 10)])"

declare writeIntText.simps [simp del]

definition node_description :: "('b, 'x) Collaborators \<Rightarrow> 'x Node \<Rightarrow> string" where
  "node_description env node =
     ''('' @ writeIntText (num_executed_jobs node) @ '' jobs'' @ debug_timings env node @ '')''"

definition describe_node ::
  "('b, 'x) Collaborators \<Rightarrow> 'x Node \<Rightarrow> 'b IProcessor list \<Rightarrow> 'b IProcessor list" where
  "describe_node env node h =
     h[processor node := setDescription (node_description env node) (h ! processor node)]"

definition dumpPipeline ::
  "('b, 'x) Collaborators \<Rightarrow> ('b, 'x) PipelineExecutor \<Rightarrow> string \<times> ('b, 'x) PipelineExecutor" where
  "dumpPipeline env s =
     (let heap1 = fold (describe_node env) (nodes s) (heap s);
          statuses = map last_processor_status (nodes s)
      in (printPipeline env (map (\<lambda>p. heap1 ! p) (processors s)) statuses, s\<lparr>heap := heap1\<rparr>))"

definition finalizeExecution ::
  "('b, 'x) Collaborators \<Rightarrow> ('b, 'x) PipelineExecutor \<Rightarrow>
     ('x thrown + unit) \<times> ('b, 'x) PipelineExecutor" where
  "finalizeExecution env s =
     (if process_list_element s = Some True
      then (Inl (Exception QUERY_WAS_CANCELLED ''Query was cancelled''), s)
      else if cancelled s then (Inr (), s)
      else if list_all (\<lambda>node. status node = Finished) (nodes s) then (Inr (), s)
      else (let (dump, s1) = dumpPipeline env s
            in (Inl (Exception LOGICAL_ERROR
                      (''Pipeline stuck. Current state:'' @ [CHR 0x0A] @ dump)), s1)))"

subsection \<open>execute\<close>

text \<open>The loop that rethrows the exception of the first node that holds one.\<close>

fun rethrow_node_exception :: "'x Node list \<Rightarrow> 'x option" where
  "rethrow_node_exception [] = None"
| "rethrow_node_exception (node # rest) =
     (case exception node of
        Some e \<Rightarrow> Some e
      | None \<Rightarrow> rethrow_node_exception rest)"

text \<open>
  \<^verbatim>\<open>execute\<close>. The run of the worker threads, \<^verbatim>\<open>executeImpl\<close>, is a parameter: what it
  throws, if anything, and the executor it leaves behind once the threads have stopped.
  The handler around the body only rethrows.
\<close>

definition execute ::
  "('b, 'x) Collaborators \<Rightarrow>
     (nat \<Rightarrow> ('b, 'x) PipelineExecutor \<Rightarrow> 'x thrown option \<times> ('b, 'x) PipelineExecutor) \<Rightarrow>
     nat \<Rightarrow> ('b, 'x) PipelineExecutor \<Rightarrow> ('x thrown + unit) \<times> ('b, 'x) PipelineExecutor" where
  "execute env executeImpl num_threads s =
     (let num_threads1 = (if num_threads < 1 then 1 else num_threads)
      in case executeImpl num_threads1 s of
           (Some e, s1) \<Rightarrow> (Inl e, s1)
         | (None, s1) \<Rightarrow>
             (case rethrow_node_exception (nodes s1) of
                Some e \<Rightarrow> (Inl (Rethrown e), s1)
              | None \<Rightarrow>
                  (case rethrowFirstThreadException (executor_contexts (tasks s1)) of
                     Some e \<Rightarrow> (Inl (Rethrown e), s1)
                   | None \<Rightarrow> finalizeExecution env s1)))"

subsection \<open>Observing the walk\<close>

text \<open>
  The edges that the loop of \<^verbatim>\<open>prepareProcessor\<close> pops, in the order in which it pops
  them, over the iterations that \<open>fuel\<close> allows. Popping an edge notifies its destination
  (unless the destination has finished, when the edge is dropped).
\<close>

fun notified :: "nat \<Rightarrow> ('b, 'x) Collaborators \<Rightarrow> ('b, 'x) Walk \<Rightarrow> Edge list" where
  "notified 0 env w = []"
| "notified (Suc fuel) env w =
     (if updated_processors w = [] \<and> updated_edges w = [] then []
      else (if updated_processors w = [] then take 1 (updated_edges w) else []) @
           (case prepareProcessor_body env w of
              (Some b, w') \<Rightarrow> []
            | (None, w') \<Rightarrow> notified fuel env w'))"

text \<open>
  What the calls of \<^verbatim>\<open>prepare\<close> answer. \<open>answer\<close> is the node and the status of the call made
  by one iteration of the loop of \<^verbatim>\<open>prepareProcessor\<close>, if the iteration prepares a node and
  the call returns; \<open>answers\<close> lists them in the order of the calls, over the iterations
  that \<open>fuel\<close> allows; \<open>answered st\<close> picks the nodes that answered \<open>st\<close>.
\<close>

definition answer :: "('b, 'x) Collaborators \<Rightarrow> ('b, 'x) Walk \<Rightarrow> (nat \<times> Status) list" where
  "answer env w =
     (case updated_processors w of
        [] \<Rightarrow> []
      | pid # rest \<Rightarrow>
          (case fst (call_prepare env (heap (executor w)) (nodes (executor w) ! pid)) of
             Throws e \<Rightarrow> []
           | Returns st \<Rightarrow> [(pid, st)]))"

fun answers :: "nat \<Rightarrow> ('b, 'x) Collaborators \<Rightarrow> ('b, 'x) Walk \<Rightarrow> (nat \<times> Status) list" where
  "answers 0 env w = []"
| "answers (Suc fuel) env w =
     (if updated_processors w = [] \<and> updated_edges w = [] then []
      else answer env w @
           (case prepareProcessor_body env w of
              (Some b, w') \<Rightarrow> []
            | (None, w') \<Rightarrow> answers fuel env w'))"

definition answered :: "Status \<Rightarrow> (nat \<times> Status) list \<Rightarrow> nat list" where
  "answered st as = map fst (filter (\<lambda>a. snd a = st) as)"

text \<open>
  The calls of \<^verbatim>\<open>prepareProcessor\<close> that the loop of \<^verbatim>\<open>initializeExecution\<close> makes on a
  stack of seeded nodes, from the top: for each call the node it is made on, what the
  calls of \<^verbatim>\<open>prepare\<close> answered during it, and its result. The loop goes from one call to
  the next with the ready queue and the executor that the call has left, and makes no
  further call once a call has not returned or has left a node in the async queue.
\<close>

fun seeded_calls ::
  "nat \<Rightarrow> ('b, 'x) Collaborators \<Rightarrow> nat list \<Rightarrow> nat list \<Rightarrow> ('b, 'x) PipelineExecutor \<Rightarrow>
     (nat \<times> (nat \<times> Status) list \<times> (bool \<times> ('b, 'x) Walk) option) list" where
  "seeded_calls fuel env [] q s = []"
| "seeded_calls fuel env (proc # stack) q s =
     (proc,
      answers fuel env
        \<lparr>executor = s, queue = q, async_queue = [], updated_edges = [],
         updated_processors = push proc []\<rparr>,
      prepareProcessor fuel env proc q [] s) #
     (case prepareProcessor fuel env proc q [] s of
        None \<Rightarrow> []
      | Some (prepared, w) \<Rightarrow>
          if async_queue w \<noteq> [] then []
          else seeded_calls fuel env stack (queue w) (executor w))"

text \<open>A walk with more edges at the bottom of its stack of edges.\<close>

definition with_edges_below :: "Edge list \<Rightarrow> ('b, 'x) Walk \<Rightarrow> ('b, 'x) Walk" where
  "with_edges_below below w = w\<lparr>updated_edges := updated_edges w @ below\<rparr>"

text \<open>
  Delivering a list of edges one at a time, in the order of the list, from a walk whose
  stacks are empty: each edge is notified to its destination as the loop does when it
  pops it, and the walk that this starts is run to its end before the next edge is
  looked at. A walk that returns false ends the delivery, the edges not yet delivered
  staying on the stack.
\<close>

fun deliver_in_order ::
  "nat \<Rightarrow> ('b, 'x) Collaborators \<Rightarrow> Edge list \<Rightarrow> ('b, 'x) Walk \<Rightarrow>
     (bool \<times> ('b, 'x) Walk) option" where
  "deliver_in_order fuel env [] w = Some (True, w)"
| "deliver_in_order fuel env (edge # edges) w =
     (case prepareProcessor_loop fuel env (notify_edge env (w\<lparr>updated_edges := [edge]\<rparr>)) of
        None \<Rightarrow> None
      | Some (ok, w') \<Rightarrow>
          if ok then deliver_in_order fuel env edges w'
          else Some (False, with_edges_below edges w'))"

subsection \<open>The spec's transition table, and what is assumed of the graph\<close>

text \<open>
  The table of the node state machine as the spec gives it, row by row; the last row
  (``unchanged'') keeps the status the node had.
\<close>

definition transition_table :: "Status \<Rightarrow> ExecStatus \<Rightarrow> ExecStatus" where
  "transition_table st old =
     (case st of
        NeedData \<Rightarrow> Idle
      | PortFull \<Rightarrow> Idle
      | Status_Finished \<Rightarrow> Finished
      | Ready \<Rightarrow> Executing
      | Async \<Rightarrow> Executing
      | ExpandPipeline \<Rightarrow> old)"

text \<open>
  The spec has \<^verbatim>\<open>ExecutingGraph::expandPipeline\<close> append nodes and wire edges. Two
  consequences are used as assumptions where a theorem follows a node through an
  expansion: the status of node \<open>pid\<close> is kept whenever the table has such a node, and
  the exception slots of the nodes that exist are kept while no node is removed.
\<close>

definition keeps_status :: "('b, 'x) Collaborators \<Rightarrow> nat \<Rightarrow> bool" where
  "keeps_status env pid =
     (\<forall>h ps ns. pid < length ns \<longrightarrow>
        status (fst (ExecutingGraph_expandPipeline env h ps ns) ! pid) = status (ns ! pid))"

definition keeps_exceptions :: "('b, 'x) Collaborators \<Rightarrow> bool" where
  "keeps_exceptions env =
     (\<forall>h ps ns. length ns \<le> length (fst (ExecutingGraph_expandPipeline env h ps ns)) \<and>
        (\<forall>i<length ns. exception (fst (ExecutingGraph_expandPipeline env h ps ns) ! i) =
                         exception (ns ! i)))"

text \<open>Node table \<open>ns'\<close> has the nodes of \<open>ns\<close>, with the same exception in every slot
  whose index is not in \<open>P\<close>.\<close>

definition slots_kept_but :: "nat set \<Rightarrow> 'x Node list \<Rightarrow> 'x Node list \<Rightarrow> bool" where
  "slots_kept_but P ns ns' =
     (length ns \<le> length ns' \<and> (\<forall>i<length ns. i \<notin> P \<longrightarrow> exception (ns' ! i) = exception (ns ! i)))"

text \<open>The fields of the executor that the walk over the graph never writes.\<close>

definition same_outside_graph ::
  "('b, 'x) PipelineExecutor \<Rightarrow> ('b, 'x) PipelineExecutor \<Rightarrow> bool" where
  "same_outside_graph s s' =
     (process_list_element s' = process_list_element s \<and> cancelled s' = cancelled s \<and>
      is_execution_initialized s' = is_execution_initialized s \<and> tasks s' = tasks s)"

subsection \<open>Example pipelines\<close>

text \<open>
  Processors that follow a script: each call of \<^verbatim>\<open>prepare\<close> takes the next entry (the
  outcome and the edges marked dirty), and answers \<^verbatim>\<open>NeedData\<close> once the script is
  used up. \<^verbatim>\<open>expandPipeline\<close> gives \<open>expansion\<close>, and the graph adds no node.
\<close>

type_synonym script = "(nat prepare_outcome \<times> Edge list \<times> Edge list) list"

definition scripted_env :: "(nat + script IProcessor list) \<Rightarrow> (script, nat) Collaborators" where
  "scripted_env expansion =
     \<lparr>IProcessor_prepare = (\<lambda>h a inputs outputs.
        case impl (h ! a) of
          [] \<Rightarrow> (Returns NeedData, h, [], [])
        | (outcome, dirty_inputs, dirty_outputs) # script \<Rightarrow>
            (outcome, h[a := (h ! a)\<lparr>impl := script\<rparr>], dirty_inputs, dirty_outputs)),
      IProcessor_expandPipeline = (\<lambda>h a. (expansion, h)),
      IProcessor_onUpdatePorts = (\<lambda>h a. h),
      IProcessor_getName = (\<lambda>p. ''Scripted''),
      UpdateInfo_trigger = (\<lambda>edge h. h),
      ExecutingGraph_expandPipeline = (\<lambda>h ps ns. (ns, [])),
      printPipeline = (\<lambda>ps statuses. concat (map processor_description ps)),
      debug_timings = (\<lambda>node. [])\<rparr>"

definition fresh_node :: "nat \<Rightarrow> Edge list \<Rightarrow> Edge list \<Rightarrow> nat Node" where
  "fresh_node p direct back =
     \<lparr>processor = p, direct_edges = direct, back_edges = back, status = Idle,
      last_processor_status = NeedData, updated_input_ports = [], updated_output_ports = [],
      post_updated_input_ports = [], post_updated_output_ports = [], exception = None,
      num_executed_jobs = 0\<rparr>"

definition fresh_executor :: "script list \<Rightarrow> nat Node list \<Rightarrow> (script, nat) PipelineExecutor" where
  "fresh_executor scripts ns =
     \<lparr>heap = map (\<lambda>script. \<lparr>processor_description = [], impl = script\<rparr>) scripts,
      processors = [0..<length scripts],
      nodes = ns,
      process_list_element = None,
      cancelled = False,
      is_execution_initialized = False,
      tasks = \<lparr>finished = False, task_queue = [], executor_contexts = []\<rparr>\<rparr>"

text \<open>A pipeline of one processor, and the variables of a walk that starts at a node.\<close>

definition one_node :: "script \<Rightarrow> (script, nat) PipelineExecutor" where
  "one_node script = fresh_executor [script] [fresh_node 0 [] []]"

definition walk_at :: "nat \<Rightarrow> (script, nat) PipelineExecutor \<Rightarrow> (script, nat) Walk" where
  "walk_at pid s =
     \<lparr>executor = s, queue = [], async_queue = [], updated_edges = [],
      updated_processors = [pid]\<rparr>"

text \<open>A source (node 0) feeding a sink (node 1), and a third processor with no port.\<close>

definition to_sink :: Edge where
  "to_sink = \<lparr>to = 1, backward = False, input_port_number = 0, output_port_number = 0\<rparr>"

definition to_source :: Edge where
  "to_source = \<lparr>to = 0, backward = True, input_port_number = 0, output_port_number = 0\<rparr>"

definition source_sink :: "script \<Rightarrow> script \<Rightarrow> script \<Rightarrow> (script, nat) PipelineExecutor" where
  "source_sink source sink lone =
     fresh_executor [source, sink, lone]
       [fresh_node 0 [to_sink] [], fresh_node 1 [] [to_source], fresh_node 2 [] []]"

text \<open>
  Processors that follow a script and keep a log of the two lists that each call of
  \<^verbatim>\<open>prepare\<close> is given; an executor of such processors; and a walk about to prepare a node
  that has pending ports.
\<close>

type_synonym logged = "script \<times> (nat list \<times> nat list) list"

definition logged_env :: "(logged, nat) Collaborators" where
  "logged_env =
     \<lparr>IProcessor_prepare = (\<lambda>h a inputs outputs.
        case impl (h ! a) of
          ([], calls) \<Rightarrow>
            (Returns NeedData, h[a := (h ! a)\<lparr>impl := ([], calls @ [(inputs, outputs)])\<rparr>], [], [])
        | ((outcome, dirty_inputs, dirty_outputs) # script, calls) \<Rightarrow>
            (outcome, h[a := (h ! a)\<lparr>impl := (script, calls @ [(inputs, outputs)])\<rparr>],
             dirty_inputs, dirty_outputs)),
      IProcessor_expandPipeline = (\<lambda>h a. (Inr [], h)),
      IProcessor_onUpdatePorts = (\<lambda>h a. h),
      IProcessor_getName = (\<lambda>p. ''Logged''),
      UpdateInfo_trigger = (\<lambda>edge h. h),
      ExecutingGraph_expandPipeline = (\<lambda>h ps ns. (ns, [])),
      printPipeline = (\<lambda>ps statuses. concat (map processor_description ps)),
      debug_timings = (\<lambda>node. [])\<rparr>"

definition logged_executor :: "script list \<Rightarrow> nat Node list \<Rightarrow> (logged, nat) PipelineExecutor" where
  "logged_executor scripts ns =
     \<lparr>heap = map (\<lambda>script. \<lparr>processor_description = [], impl = (script, [])\<rparr>) scripts,
      processors = [0..<length scripts],
      nodes = ns,
      process_list_element = None,
      cancelled = False,
      is_execution_initialized = False,
      tasks = \<lparr>finished = False, task_queue = [], executor_contexts = []\<rparr>\<rparr>"

definition logged_walk :: "script \<Rightarrow> (logged, nat) Walk" where
  "logged_walk script =
     \<lparr>executor =
        logged_executor [script]
          [(fresh_node 0 [] [])\<lparr>status := Preparing, updated_input_ports := [3, 4],
                                updated_output_ports := [5]\<rparr>],
      queue = [], async_queue = [], updated_edges = [], updated_processors = [0]\<rparr>"

text \<open>
  A source (node 0) with two outputs, feeding node 1 and node 2. Asked by node 2, the
  source fills its first output; the \<^verbatim>\<open>prepare\<close> of node 1 throws.
\<close>

definition to_first :: Edge where
  "to_first = \<lparr>to = 1, backward = False, input_port_number = 0, output_port_number = 0\<rparr>"

definition to_second :: Edge where
  "to_second = \<lparr>to = 2, backward = False, input_port_number = 0, output_port_number = 1\<rparr>"

definition first_to_source :: Edge where
  "first_to_source = \<lparr>to = 0, backward = True, input_port_number = 0, output_port_number = 0\<rparr>"

definition second_to_source :: Edge where
  "second_to_source = \<lparr>to = 0, backward = True, input_port_number = 0, output_port_number = 1\<rparr>"

definition fan_out :: "(logged, nat) PipelineExecutor" where
  "fan_out =
     logged_executor
       [[(Returns PortFull, [], [to_first])],
        [(Throws 1, [], [])],
        [(Returns NeedData, [second_to_source], [])]]
       [fresh_node 0 [to_first, to_second] [],
        fresh_node 1 [] [first_to_source],
        fresh_node 2 [] [second_to_source]]"

text \<open>Executors at the end of a run: one whose only node is still idle, one whose only
  node has finished, and one with exceptions on two nodes and in a thread context.\<close>

definition stuck_pipeline :: "(script, nat) PipelineExecutor" where
  "stuck_pipeline = one_node []"

definition finished_pipeline :: "(script, nat) PipelineExecutor" where
  "finished_pipeline = (one_node [])\<lparr>nodes := [(fresh_node 0 [] [])\<lparr>status := Finished\<rparr>]\<rparr>"

definition failed_pipeline :: "(script, nat) PipelineExecutor" where
  "failed_pipeline =
     (source_sink [] [] [])
       \<lparr>nodes := [fresh_node 0 [to_sink] [],
                  (fresh_node 1 [] [to_source])\<lparr>exception := Some 5\<rparr>,
                  (fresh_node 2 [] [])\<lparr>exception := Some 6\<rparr>],
        tasks := \<lparr>finished = True, task_queue = [], executor_contexts = [Some 9]\<rparr>\<rparr>"

definition threads_stopped ::
  "nat \<Rightarrow> (script, nat) PipelineExecutor \<Rightarrow> nat thrown option \<times> (script, nat) PipelineExecutor" where
  "threads_stopped num_threads s = (None, s)"

text \<open>
  A run of \<^verbatim>\<open>executeImpl\<close> in which the worker threads find nothing to execute: it is
  \<^verbatim>\<open>initializeExecution\<close>, whose exception leaves \<^verbatim>\<open>executeImpl\<close>, and the nodes and the
  thread contexts are left as initialisation made them. Two pipelines for it: two
  processors without ports whose \<^verbatim>\<open>prepare\<close> throws, and a sink that answers \<^verbatim>\<open>Async\<close>
  and marks its input edge dirty, fed by a source whose \<^verbatim>\<open>prepare\<close> throws.
\<close>

definition initialised_and_stopped ::
  "(script, nat) Collaborators \<Rightarrow> nat \<Rightarrow> (script, nat) PipelineExecutor \<Rightarrow>
     nat thrown option \<times> (script, nat) PipelineExecutor" where
  "initialised_and_stopped env num_threads s =
     (case initializeExecution 10 env num_threads s of
        None \<Rightarrow> (None, s)
      | Some (Inl e, q, aq, s1) \<Rightarrow> (Some e, s1)
      | Some (Inr u, q, aq, s1) \<Rightarrow> (None, s1))"

definition two_failing :: "(script, nat) PipelineExecutor" where
  "two_failing =
     fresh_executor [[(Throws 10, [], [])], [(Throws 11, [], [])]]
       [fresh_node 0 [] [], fresh_node 1 [] []]"

definition async_sink :: "(script, nat) PipelineExecutor" where
  "async_sink = source_sink [(Throws 3, [], [])] [(Returns Async, [to_source], [])] []"

text \<open>Three processors without ports.\<close>

definition three_lone :: "script \<Rightarrow> script \<Rightarrow> script \<Rightarrow> (script, nat) PipelineExecutor" where
  "three_lone a b c =
     fresh_executor [a, b, c] [fresh_node 0 [] [], fresh_node 1 [] [], fresh_node 2 [] []]"

text \<open>A chain of three processors; the script of the middle one marks its input edge
  and its output edge dirty. And a pipeline whose only node already holds an exception
  while its processor is about to throw another.\<close>

definition to_transform :: Edge where
  "to_transform = \<lparr>to = 1, backward = True, input_port_number = 0, output_port_number = 0\<rparr>"

definition to_last :: Edge where
  "to_last = \<lparr>to = 2, backward = False, input_port_number = 0, output_port_number = 0\<rparr>"

definition chain :: "(script, nat) PipelineExecutor" where
  "chain =
     fresh_executor [[], [(Returns NeedData, [to_source], [to_last])], []]
       [fresh_node 0 [to_sink] [], fresh_node 1 [to_last] [to_source],
        fresh_node 2 [] [to_transform]]"

definition failed_once :: "(script, nat) PipelineExecutor" where
  "failed_once =
     (one_node [(Throws 2, [], [])])\<lparr>nodes := [(fresh_node 0 [] [])\<lparr>exception := Some 1\<rparr>]\<rparr>"

text \<open>
  An expansion that adds one processor, with a graph that appends a node for it and
  reports that node as updated; and a pipeline whose only node, already staged, answers
  \<^verbatim>\<open>ExpandPipeline\<close>.
\<close>

definition growing_env :: "(script, nat) Collaborators" where
  "growing_env =
     (scripted_env (Inr [\<lparr>processor_description = [], impl = []\<rparr>]))
       \<lparr>ExecutingGraph_expandPipeline :=
          (\<lambda>h ps ns. (ns @ [fresh_node (length ns) [] []], [length ns]))\<rparr>"

definition expanding_node :: "(script, nat) PipelineExecutor" where
  "expanding_node =
     (one_node [(Returns ExpandPipeline, [], [])])
       \<lparr>nodes := [(fresh_node 0 [] [])\<lparr>status := Preparing\<rparr>]\<rparr>"

section \<open>Properties\<close>

subsection \<open>Seeding the childless nodes\<close>

lemma addChildless_body_pair:
  "addChildless_body proc (stack, ns) =
     (if direct_edges (ns ! proc) = []
      then (proc # stack, ns[proc := (ns ! proc)\<lparr>status := Preparing\<rparr>])
      else (stack, ns))"
  by (simp add: addChildless_body_def)

lemma addChildless_fold:
  fixes ns :: "'x Node list"
  defines "seed \<equiv> \<lambda>node :: 'x Node.
             if direct_edges node = [] then node\<lparr>status := Preparing\<rparr> else node"
  assumes "k \<le> length ns"
  shows "fold addChildless_body [0..<k] (stack, ns) =
     (rev (filter (\<lambda>i. direct_edges (ns ! i) = []) [0..<k]) @ stack,
      map seed (take k ns) @ drop k ns)"
  using assms(2)
proof (induction k)
  case 0
  then show ?case by simp
next
  case (Suc k)
  then have k: "k < length ns" by simp
  let ?N = "map seed (take k ns) @ drop k ns"
  have nth: "?N ! k = ns ! k"
    using k by (simp add: nth_append)
  have upd: "?N[k := seed (ns ! k)] = map seed (take (Suc k) ns) @ drop (Suc k) ns"
    using k by (simp add: take_Suc_conv_app_nth list_update_append Cons_nth_drop_Suc[symmetric])
  have IH: "fold addChildless_body [0..<k] (stack, ns) =
     (rev (filter (\<lambda>i. direct_edges (ns ! i) = []) [0..<k]) @ stack, ?N)"
    using Suc.IH k by simp
  show ?case
  proof (cases "direct_edges (ns ! k) = []")
    case True
    then have "seed (ns ! k) = (ns ! k)\<lparr>status := Preparing\<rparr>"
      by (simp add: seed_def)
    with upd have "?N[k := (ns ! k)\<lparr>status := Preparing\<rparr>] =
       map seed (take (Suc k) ns) @ drop (Suc k) ns" by simp
    with True IH nth show ?thesis
      by (simp add: addChildless_body_pair)
  next
    case False
    then have "seed (ns ! k) = ?N ! k"
      using nth by (simp add: seed_def)
    with upd have "?N = map seed (take (Suc k) ns) @ drop (Suc k) ns"
      by (metis list_update_id)
    with False IH nth show ?thesis
      by (simp add: addChildless_body_pair)
  qed
qed

text \<open>
  C8. When the executor has one node for each processor of the flat list, as after its
  construction, \<^verbatim>\<open>addChildlessProcessorsToStack\<close> pushes exactly the indices of the nodes
  whose \<^verbatim>\<open>direct_edges\<close> is empty, in increasing order (so the stack, read from its top,
  lists them in decreasing order above what it held), and sets the status of each of
  them to \<^verbatim>\<open>Preparing\<close>; a node with a direct edge is not pushed and is left as it was.
\<close>

theorem addChildless_seeds_childless_nodes:
  assumes "length (processors s) = length (nodes s)"
  shows "addChildlessProcessorsToStack stack s =
     (rev (filter (\<lambda>proc. direct_edges (nodes s ! proc) = []) [0..<length (nodes s)]) @ stack,
      s\<lparr>nodes := map (\<lambda>node. if direct_edges node = []
                              then node\<lparr>status := Preparing\<rparr> else node) (nodes s)\<rparr>)"
  using assms addChildless_fold[of "length (nodes s)" "nodes s" stack]
  by (simp add: addChildlessProcessorsToStack_def)

theorem addChildless_seeds_childless_nodes_witness:
  "length (processors (source_sink [] [] [])) = length (nodes (source_sink [] [] [])) \<and>
   fst (addChildlessProcessorsToStack [] (source_sink [] [] [])) = [2, 1] \<and>
   map status (nodes (snd (addChildlessProcessorsToStack [] (source_sink [] [] [])))) =
     [Idle, Preparing, Preparing]"
  using addChildless_seeds_childless_nodes[of "source_sink [] [] []" "[]"]
  by (simp add: source_sink_def fresh_executor_def fresh_node_def to_sink_def upt_rec)

subsection \<open>Steps of the walk\<close>

lemma fold_push_rev: "fold push (rev xs) ys = xs @ ys"
  by (induction xs arbitrary: ys) (simp_all add: push_def)

lemma push_post_updated_eq:
  "push_post_updated node edges =
     post_updated_input_ports node @ post_updated_output_ports node @ edges"
  by (simp add: push_post_updated_def fold_push_rev)

lemma trigger_post_updated_status:
  "trigger_post_updated env (node\<lparr>status := x\<rparr>) h = trigger_post_updated env node h"
  by (simp add: trigger_post_updated_def)

lemma fold_no_trigger: "fold (\<lambda>edge h. h) edges h = h"
  by (induction edges) simp_all

lemma call_prepare_Returns_fields:
  assumes "call_prepare env h node = (Returns st, h1, node1)"
  shows "last_processor_status node1 = st"
    and "updated_input_ports node1 = []"
    and "updated_output_ports node1 = []"
    and "status node1 = status node"
    and "exception node1 = exception node"
  using assms
  by (auto simp: call_prepare_def Let_def split: prod.splits prepare_outcome.splits)

lemma stage_updated_node_status:
  assumes "stage_updated_node bs ds u (stack, ns) = (stack', ns')"
  shows "length ns' = length ns \<and>
         (status (ns' ! i) = status (ns ! i) \<or>
          status (ns ! i) = Idle \<and> status (ns' ! i) = Preparing)"
  using assms
  by (cases "u < length ns"; cases "i = u")
     (auto simp: stage_updated_node_def Let_def list_update_beyond split: if_splits)

lemma fold_stage_status:
  "fold (stage_updated_node bs ds) us (stack, ns) = (stack', ns') \<Longrightarrow>
   length ns' = length ns \<and>
   (status (ns' ! i) = status (ns ! i) \<or> status (ns ! i) = Idle \<and> status (ns' ! i) = Preparing)"
proof (induction us arbitrary: stack ns)
  case Nil
  then show ?case by simp
next
  case (Cons u us)
  obtain stack1 ns1 where s1: "stage_updated_node bs ds u (stack, ns) = (stack1, ns1)"
    by (cases "stage_updated_node bs ds u (stack, ns)")
  from Cons.prems s1 have "fold (stage_updated_node bs ds) us (stack1, ns1) = (stack', ns')"
    by simp
  from Cons.IH[OF this] stage_updated_node_status[OF s1, of i] show ?case
    by auto
qed

lemma expandPipeline_Inl:
  assumes "IProcessor_expandPipeline env (heap s) (processor (nodes s ! pid)) = (Inl e, hx)"
  shows "expandPipeline env stack pid s =
     (False, stack,
      s\<lparr>heap := hx,
        nodes := (nodes s)[pid := (nodes s ! pid)\<lparr>exception := Some e\<rparr>]\<rparr>)"
  using assms by (simp add: expandPipeline_def Let_def)

lemma expandPipeline_Inr:
  assumes "IProcessor_expandPipeline env (heap s) (processor (nodes s ! pid)) = (Inr new, hx)"
    and "ExecutingGraph_expandPipeline env (hx @ new)
           (processors s @ [length hx ..< length hx + length new]) (nodes s) =
         (nodes1, updated_nodes)"
    and "fold (stage_updated_node
                 (edge_sizes back_edges (length (processors s) + length new) (nodes s))
                 (edge_sizes direct_edges (length (processors s) + length new) (nodes s)))
           updated_nodes (stack, nodes1) = (stack', nodes2)"
  shows "expandPipeline env stack pid s =
     (True, stack',
      s\<lparr>heap := hx @ new,
        processors := processors s @ [length hx ..< length hx + length new],
        nodes := nodes2\<rparr>)"
  using assms by (simp add: expandPipeline_def Let_def)

lemma prepare_node_not_expand:
  assumes "updated_processors w = pid # rest"
    and "call_prepare env (heap (executor w)) (nodes (executor w) ! pid) =
           (Returns st, heap1, node1)"
    and "st \<noteq> ExpandPipeline"
  shows "prepare_node env w =
     (None,
      w\<lparr>executor := (executor w)\<lparr>heap := trigger_post_updated env node1 heap1,
           nodes := (nodes (executor w))
             [pid := node1\<lparr>status := transition_table st (status node1),
                           post_updated_input_ports := [],
                           post_updated_output_ports := []\<rparr>]\<rparr>,
        queue := queue w @ (if st = Ready then [pid] else []),
        async_queue := async_queue w @ (if st = Async then [pid] else []),
        updated_edges :=
          post_updated_input_ports node1 @ post_updated_output_ports node1 @ updated_edges w,
        updated_processors := rest\<rparr>)"
  using assms
  by (cases st)
     (simp_all add: prepare_node_def Let_def push_post_updated_eq transition_table_def
        trigger_post_updated_status)

lemma prepare_node_expand:
  assumes "updated_processors w = pid # rest"
    and "call_prepare env (heap (executor w)) (nodes (executor w) ! pid) =
           (Returns ExpandPipeline, heap1, node1)"
    and "expandPipeline env rest pid
           ((executor w)\<lparr>heap := heap1, nodes := (nodes (executor w))[pid := node1]\<rparr>) =
         (expanded, stack, s1)"
  shows "prepare_node env w =
     (if expanded then None else Some False,
      w\<lparr>executor := s1,
        updated_processors := (if expanded then pid # stack else stack)\<rparr>)"
  using assms
  by (simp add: prepare_node_def Let_def push_def)

subsection \<open>A failing expandPipeline\<close>

text \<open>
  C9. When the processor's \<^verbatim>\<open>expandPipeline()\<close> throws, \<^verbatim>\<open>PipelineExecutor::expandPipeline\<close>
  returns false with the exception stored on the node and nothing else of the executor
  changed: the stack, the flat list of processors and the node table are as before, and
  so are the edges, the statuses and the four port lists of every node. (The store of
  processor objects is as the throwing call left it.)
\<close>

theorem expandPipeline_throw_mutates_nothing:
  assumes "IProcessor_expandPipeline env (heap s) (processor (nodes s ! pid)) = (Inl e, hx)"
    and "pid < length (nodes s)"
    and "expandPipeline env stack pid s = (expanded, stack', s')"
  shows "\<not> expanded \<and> stack' = stack \<and>
         exception (nodes s' ! pid) = Some e \<and>
         s' = s\<lparr>heap := hx,
                nodes := (nodes s)[pid := (nodes s ! pid)\<lparr>exception := Some e\<rparr>]\<rparr> \<and>
         processors s' = processors s \<and>
         length (nodes s') = length (nodes s) \<and>
         map direct_edges (nodes s') = map direct_edges (nodes s) \<and>
         map back_edges (nodes s') = map back_edges (nodes s) \<and>
         map status (nodes s') = map status (nodes s) \<and>
         map updated_input_ports (nodes s') = map updated_input_ports (nodes s) \<and>
         map updated_output_ports (nodes s') = map updated_output_ports (nodes s) \<and>
         map post_updated_input_ports (nodes s') = map post_updated_input_ports (nodes s) \<and>
         map post_updated_output_ports (nodes s') = map post_updated_output_ports (nodes s)"
proof -
  have r: "expanded = False" "stack' = stack"
    "s' = s\<lparr>heap := hx,
            nodes := (nodes s)[pid := (nodes s ! pid)\<lparr>exception := Some e\<rparr>]\<rparr>"
    using expandPipeline_Inl[OF assms(1), of stack] assms(3) by simp_all
  have n: "nodes s' = (nodes s)[pid := (nodes s ! pid)\<lparr>exception := Some e\<rparr>]"
    using r(3) by simp
  have m: "map f (nodes s') = map f (nodes s)"
    if "f ((nodes s ! pid)\<lparr>exception := Some e\<rparr>) = f (nodes s ! pid)" for f
    using that assms(2) unfolding n by (simp add: map_update list_update_same_conv)
  have maps: "map direct_edges (nodes s') = map direct_edges (nodes s)"
    "map back_edges (nodes s') = map back_edges (nodes s)"
    "map status (nodes s') = map status (nodes s)"
    "map updated_input_ports (nodes s') = map updated_input_ports (nodes s)"
    "map updated_output_ports (nodes s') = map updated_output_ports (nodes s)"
    "map post_updated_input_ports (nodes s') = map post_updated_input_ports (nodes s)"
    "map post_updated_output_ports (nodes s') = map post_updated_output_ports (nodes s)"
    by (rule m, simp)+
  have "exception (nodes s' ! pid) = Some e" "processors s' = processors s"
    "length (nodes s') = length (nodes s)"
    using assms(2) r(3) by simp_all
  with r maps show ?thesis
    by blast
qed

theorem expandPipeline_throw_mutates_nothing_witness:
  "fst (expandPipeline (scripted_env (Inl 7)) [5] 0 (one_node [])) = False \<and>
   fst (snd (expandPipeline (scripted_env (Inl 7)) [5] 0 (one_node []))) = [5] \<and>
   map exception
     (nodes (snd (snd (expandPipeline (scripted_env (Inl 7)) [5] 0 (one_node []))))) =
     [Some 7] \<and>
   processors (snd (snd (expandPipeline (scripted_env (Inl 7)) [5] 0 (one_node [])))) = [0] \<and>
   map status
     (nodes (snd (snd (expandPipeline (scripted_env (Inl 7)) [5] 0 (one_node []))))) = [Idle]"
proof -
  let ?env = "scripted_env (Inl 7)"
  let ?s = "one_node []"
  obtain expanded stack' s' where r: "expandPipeline ?env [5] 0 ?s = (expanded, stack', s')"
    by (cases "expandPipeline ?env [5] 0 ?s")
  have a: "IProcessor_expandPipeline ?env (heap ?s) (processor (nodes ?s ! 0)) =
             (Inl 7, heap ?s)"
    by (simp add: scripted_env_def)
  have b: "0 < length (nodes ?s)"
    by (simp add: one_node_def fresh_executor_def)
  from expandPipeline_throw_mutates_nothing[OF a b r] r show ?thesis
    by (simp add: one_node_def fresh_executor_def fresh_node_def)
qed

subsection \<open>The status of a prepared node\<close>

lemma keeps_status_growing: "keeps_status growing_env pid"
  by (simp add: keeps_status_def growing_env_def nth_append)

text \<open>
  C1, as the code has it. When the \<^verbatim>\<open>prepare\<close> of the node on top of the stack returns
  status \<open>st\<close>, the step is determined as follows.
  \<^item> For any status but \<^verbatim>\<open>ExpandPipeline\<close> the walk goes on from the state given in full
    below: the node's new status is the one of the table (\<^verbatim>\<open>NeedData\<close> and \<^verbatim>\<open>PortFull\<close>:
    \<^verbatim>\<open>Idle\<close>; \<^verbatim>\<open>Finished\<close>: \<^verbatim>\<open>Finished\<close>; \<^verbatim>\<open>Ready\<close> and \<^verbatim>\<open>Async\<close>: \<^verbatim>\<open>Executing\<close>), and
    the node is appended to the ready queue exactly for \<^verbatim>\<open>Ready\<close> and to the async queue
    exactly for \<^verbatim>\<open>Async\<close>.
  \<^item> For \<^verbatim>\<open>ExpandPipeline\<close> the queues are untouched and the switch leaves the status the
    node had, whatever it was (\<^verbatim>\<open>Preparing\<close> for a node staged by the walk, \<^verbatim>\<open>Executing\<close>
    for the node that is prepared again after its work).
  \<^item> When the processor's \<^verbatim>\<open>expandPipeline()\<close> then throws \<open>e\<close>, the walk returns false
    from the state in which \<open>e\<close> is stored in the exception slot of the node and nothing
    else of the graph has changed: no processor is added and the node is not pushed
    again.
  \<^item> When it returns the processors \<open>new\<close>, the walk goes on from the state in which they
    are appended to the store and to the flat list, the node table is the one that
    \<^verbatim>\<open>graph->expandPipeline\<close> made of the grown list, with every updated node given its new
    ports and staged if idle, and the stack holds the node on top of the nodes so staged.
    The node's status is still the old one provided the graph expansion keeps it and it
    was not \<^verbatim>\<open>Idle\<close>.
\<close>

theorem prepare_node_status_transition:
  assumes stack: "updated_processors w = pid # rest"
    and pid: "pid < length (nodes (executor w))"
    and call: "call_prepare env (heap (executor w)) (nodes (executor w) ! pid) =
                 (Returns st, heap1, node1)"
    and step: "prepare_node env w = (r, w')"
  shows "(st \<noteq> ExpandPipeline \<longrightarrow>
            r = None \<and>
            w' = w\<lparr>executor := (executor w)\<lparr>heap := trigger_post_updated env node1 heap1,
                      nodes := (nodes (executor w))
                        [pid := node1\<lparr>status := transition_table st (status node1),
                                      post_updated_input_ports := [],
                                      post_updated_output_ports := []\<rparr>]\<rparr>,
                   queue := queue w @ (if st = Ready then [pid] else []),
                   async_queue := async_queue w @ (if st = Async then [pid] else []),
                   updated_edges :=
                     post_updated_input_ports node1 @ post_updated_output_ports node1 @
                     updated_edges w,
                   updated_processors := rest\<rparr> \<and>
            updated_processors w' = rest \<and>
            status (nodes (executor w') ! pid) =
              transition_table st (status (nodes (executor w) ! pid)) \<and>
            queue w' = queue w @ (if st = Ready then [pid] else []) \<and>
            async_queue w' = async_queue w @ (if st = Async then [pid] else [])) \<and>
         (st = ExpandPipeline \<longrightarrow>
            queue w' = queue w \<and> async_queue w' = async_queue w \<and>
            status node1 = status (nodes (executor w) ! pid) \<and>
            (\<forall>e hx. IProcessor_expandPipeline env heap1 (processor node1) = (Inl e, hx) \<longrightarrow>
               r = Some False \<and>
               w' = w\<lparr>executor := (executor w)\<lparr>heap := hx,
                         nodes := (nodes (executor w))[pid := node1\<lparr>exception := Some e\<rparr>]\<rparr>,
                      updated_processors := rest\<rparr> \<and>
               exception (nodes (executor w') ! pid) = Some e \<and>
               updated_processors w' = rest \<and>
               processors (executor w') = processors (executor w) \<and>
               length (nodes (executor w')) = length (nodes (executor w)) \<and>
               status (nodes (executor w') ! pid) = status (nodes (executor w) ! pid)) \<and>
            (\<forall>new hx nodes1 updated_nodes stack' nodes2.
               IProcessor_expandPipeline env heap1 (processor node1) = (Inr new, hx) \<and>
               ExecutingGraph_expandPipeline env (hx @ new)
                 (processors (executor w) @ [length hx ..< length hx + length new])
                 ((nodes (executor w))[pid := node1]) = (nodes1, updated_nodes) \<and>
               fold (stage_updated_node
                       (edge_sizes back_edges (length (processors (executor w)) + length new)
                          ((nodes (executor w))[pid := node1]))
                       (edge_sizes direct_edges (length (processors (executor w)) + length new)
                          ((nodes (executor w))[pid := node1])))
                 updated_nodes (rest, nodes1) = (stack', nodes2) \<longrightarrow>
               r = None \<and>
               w' = w\<lparr>executor := (executor w)\<lparr>heap := hx @ new,
                         processors :=
                           processors (executor w) @ [length hx ..< length hx + length new],
                         nodes := nodes2\<rparr>,
                      updated_processors := pid # stack'\<rparr> \<and>
               (keeps_status env pid \<and> status (nodes (executor w) ! pid) \<noteq> Idle \<longrightarrow>
                  status (nodes (executor w') ! pid) = status (nodes (executor w) ! pid))))"
proof -
  let ?s = "executor w"
  let ?s1 = "?s\<lparr>heap := heap1, nodes := (nodes ?s)[pid := node1]\<rparr>"
  have st1: "status node1 = status (nodes ?s ! pid)"
    using call_prepare_Returns_fields(4)[OF call] .
  have cur: "nodes ?s1 ! pid = node1" "heap ?s1 = heap1" "processors ?s1 = processors ?s"
    "nodes ?s1 = (nodes ?s)[pid := node1]"
    using pid by simp_all
  have A: "r = None \<and>
            w' = w\<lparr>executor := (executor w)\<lparr>heap := trigger_post_updated env node1 heap1,
                      nodes := (nodes (executor w))
                        [pid := node1\<lparr>status := transition_table st (status node1),
                                      post_updated_input_ports := [],
                                      post_updated_output_ports := []\<rparr>]\<rparr>,
                   queue := queue w @ (if st = Ready then [pid] else []),
                   async_queue := async_queue w @ (if st = Async then [pid] else []),
                   updated_edges :=
                     post_updated_input_ports node1 @ post_updated_output_ports node1 @
                     updated_edges w,
                   updated_processors := rest\<rparr> \<and>
            updated_processors w' = rest \<and>
            status (nodes (executor w') ! pid) =
              transition_table st (status (nodes (executor w) ! pid)) \<and>
            queue w' = queue w @ (if st = Ready then [pid] else []) \<and>
            async_queue w' = async_queue w @ (if st = Async then [pid] else [])"
    if ne: "st \<noteq> ExpandPipeline"
  proof -
    note eq = prepare_node_not_expand[OF stack call ne]
    from eq step have r: "r = None" and w': "w' = w\<lparr>executor := (executor w)\<lparr>heap := trigger_post_updated env node1 heap1,
                      nodes := (nodes (executor w))
                        [pid := node1\<lparr>status := transition_table st (status node1),
                                      post_updated_input_ports := [],
                                      post_updated_output_ports := []\<rparr>]\<rparr>,
                   queue := queue w @ (if st = Ready then [pid] else []),
                   async_queue := async_queue w @ (if st = Async then [pid] else []),
                   updated_edges :=
                     post_updated_input_ports node1 @ post_updated_output_ports node1 @
                     updated_edges w,
                   updated_processors := rest\<rparr>"
      by simp_all
    have "updated_processors w' = rest"
      "status (nodes (executor w') ! pid) = transition_table st (status (nodes (executor w) ! pid))"
      "queue w' = queue w @ (if st = Ready then [pid] else [])"
      "async_queue w' = async_queue w @ (if st = Async then [pid] else [])"
      unfolding w' using pid st1 by simp_all
    with r w' show ?thesis by blast
  qed
  have B: "queue w' = queue w \<and> async_queue w' = async_queue w" if "st = ExpandPipeline"
  proof -
    obtain expanded stk s1 where e: "expandPipeline env rest pid ?s1 = (expanded, stk, s1)"
      by (cases "expandPipeline env rest pid ?s1")
    show ?thesis
      using prepare_node_expand[OF stack call[unfolded that] e] step by auto
  qed
  have C: "r = Some False \<and>
           w' = w\<lparr>executor := (executor w)\<lparr>heap := hx,
                     nodes := (nodes (executor w))[pid := node1\<lparr>exception := Some e\<rparr>]\<rparr>,
                  updated_processors := rest\<rparr> \<and>
           exception (nodes (executor w') ! pid) = Some e \<and>
           updated_processors w' = rest \<and>
           processors (executor w') = processors (executor w) \<and>
           length (nodes (executor w')) = length (nodes (executor w)) \<and>
           status (nodes (executor w') ! pid) = status (nodes (executor w) ! pid)"
    if "st = ExpandPipeline"
      and x: "IProcessor_expandPipeline env heap1 (processor node1) = (Inl e, hx)"
    for e hx
  proof -
    have x': "IProcessor_expandPipeline env (heap ?s1) (processor (nodes ?s1 ! pid)) = (Inl e, hx)"
      using x cur by simp
    from prepare_node_expand[OF stack call[unfolded that(1)] expandPipeline_Inl[OF x', of rest]]
      step
    have r: "r = Some False"
      and w': "w' = w\<lparr>executor := (executor w)\<lparr>heap := hx,
                     nodes := (nodes (executor w))[pid := node1\<lparr>exception := Some e\<rparr>]\<rparr>,
                  updated_processors := rest\<rparr>"
      using pid by simp_all
    have "exception (nodes (executor w') ! pid) = Some e"
      "updated_processors w' = rest"
      "processors (executor w') = processors (executor w)"
      "length (nodes (executor w')) = length (nodes (executor w))"
      "status (nodes (executor w') ! pid) = status (nodes (executor w) ! pid)"
      unfolding w' using pid st1 by simp_all
    with r w' show ?thesis by blast
  qed
  have D: "r = None \<and>
           w' = w\<lparr>executor := (executor w)\<lparr>heap := hx @ new,
                     processors :=
                       processors (executor w) @ [length hx ..< length hx + length new],
                     nodes := nodes2\<rparr>,
                  updated_processors := pid # stack'\<rparr> \<and>
           (keeps_status env pid \<and> status (nodes (executor w) ! pid) \<noteq> Idle \<longrightarrow>
              status (nodes (executor w') ! pid) = status (nodes (executor w) ! pid))"
    if "st = ExpandPipeline"
      and x: "IProcessor_expandPipeline env heap1 (processor node1) = (Inr new, hx)"
      and g0: "ExecutingGraph_expandPipeline env (hx @ new)
                 (processors (executor w) @ [length hx ..< length hx + length new])
                 ((nodes (executor w))[pid := node1]) = (nodes1, updated_nodes)"
      and f0: "fold (stage_updated_node
                       (edge_sizes back_edges (length (processors (executor w)) + length new)
                          ((nodes (executor w))[pid := node1]))
                       (edge_sizes direct_edges (length (processors (executor w)) + length new)
                          ((nodes (executor w))[pid := node1])))
                 updated_nodes (rest, nodes1) = (stack', nodes2)"
    for new hx nodes1 updated_nodes stack' nodes2
  proof -
    have x': "IProcessor_expandPipeline env (heap ?s1) (processor (nodes ?s1 ! pid)) = (Inr new, hx)"
      using x cur by simp
    have g: "ExecutingGraph_expandPipeline env (hx @ new)
           (processors ?s1 @ [length hx ..< length hx + length new]) (nodes ?s1) =
         (nodes1, updated_nodes)"
      using g0 by simp
    have f: "fold (stage_updated_node
                 (edge_sizes back_edges (length (processors ?s1) + length new) (nodes ?s1))
                 (edge_sizes direct_edges (length (processors ?s1) + length new) (nodes ?s1)))
           updated_nodes (rest, nodes1) = (stack', nodes2)"
      using f0 by simp
    note ex = expandPipeline_Inr[OF x' g f]
    from prepare_node_expand[OF stack call[unfolded that(1)] ex] step
    have r: "r = None"
      and w': "w' = w\<lparr>executor := (executor w)\<lparr>heap := hx @ new,
                     processors :=
                       processors (executor w) @ [length hx ..< length hx + length new],
                     nodes := nodes2\<rparr>,
                  updated_processors := pid # stack'\<rparr>"
      by simp_all
    have keep: "status (nodes (executor w') ! pid) = status (nodes ?s ! pid)"
      if k: "keeps_status env pid" and ni: "status (nodes ?s ! pid) \<noteq> Idle"
    proof -
      have "pid < length (nodes ?s1)" using pid by simp
      with k g have "status (nodes1 ! pid) = status (nodes ?s1 ! pid)"
        unfolding keeps_status_def by (metis fst_conv)
      then have "status (nodes1 ! pid) = status (nodes ?s ! pid)"
        using cur(1) st1 by simp
      with fold_stage_status[OF f, of pid] ni have "status (nodes2 ! pid) = status (nodes ?s ! pid)"
        by auto
      then show ?thesis unfolding w' by simp
    qed
    show ?thesis
      using r w' keep by blast
  qed
  show ?thesis
    using A B C D st1 by blast
qed


theorem prepare_node_status_transition_witness:
  "status (nodes (executor (snd (prepare_node (scripted_env (Inr []))
       (walk_at 0 (one_node [(Returns Ready, [], [])]))))) ! 0) = Executing \<and>
   queue (snd (prepare_node (scripted_env (Inr []))
       (walk_at 0 (one_node [(Returns Ready, [], [])])))) = [0] \<and>
   fst (prepare_node (scripted_env (Inl 7))
       (walk_at 0 (one_node [(Returns ExpandPipeline, [], [])]))) = Some False \<and>
   map exception (nodes (executor (snd (prepare_node (scripted_env (Inl 7))
       (walk_at 0 (one_node [(Returns ExpandPipeline, [], [])])))))) = [Some 7] \<and>
   fst (prepare_node growing_env (walk_at 0 expanding_node)) = None \<and>
   updated_processors (snd (prepare_node growing_env (walk_at 0 expanding_node))) = [0, 1] \<and>
   processors (executor (snd (prepare_node growing_env (walk_at 0 expanding_node)))) = [0, 1] \<and>
   length (heap (executor (snd (prepare_node growing_env (walk_at 0 expanding_node))))) = 2 \<and>
   map status (nodes (executor (snd (prepare_node growing_env (walk_at 0 expanding_node))))) =
     [Preparing, Preparing]"
proof -
  let ?env = "scripted_env (Inr [])"
  let ?w = "walk_at 0 (one_node [(Returns Ready, [], [])])"
  let ?env2 = "scripted_env (Inl 7)"
  let ?w2 = "walk_at 0 (one_node [(Returns ExpandPipeline, [], [])])"
  let ?w3 = "walk_at 0 expanding_node"
  obtain r w' where step: "prepare_node ?env ?w = (r, w')"
    by (cases "prepare_node ?env ?w")
  obtain out h1 n1 where
    call: "call_prepare ?env (heap (executor ?w)) (nodes (executor ?w) ! 0) = (out, h1, n1)"
    by (cases "call_prepare ?env (heap (executor ?w)) (nodes (executor ?w) ! 0)")
  then have out: "out = Returns Ready"
    by (auto simp: call_prepare_def scripted_env_def walk_at_def one_node_def
        fresh_executor_def fresh_node_def)
  have stack: "updated_processors ?w = 0 # []" and pid: "0 < length (nodes (executor ?w))"
    by (simp_all add: walk_at_def one_node_def fresh_executor_def)
  have old: "status (nodes (executor ?w) ! 0) = Idle"
    by (simp add: walk_at_def one_node_def fresh_executor_def fresh_node_def)
  obtain r2 w2' where step2: "prepare_node ?env2 ?w2 = (r2, w2')"
    by (cases "prepare_node ?env2 ?w2")
  obtain h2 n2 where
    call2: "call_prepare ?env2 (heap (executor ?w2)) (nodes (executor ?w2) ! 0) =
              (Returns ExpandPipeline, h2, n2)"
    by (cases "call_prepare ?env2 (heap (executor ?w2)) (nodes (executor ?w2) ! 0)")
       (auto simp: call_prepare_def scripted_env_def walk_at_def one_node_def
          fresh_executor_def fresh_node_def)
  have stack2: "updated_processors ?w2 = 0 # []" and pid2: "0 < length (nodes (executor ?w2))"
    by (simp_all add: walk_at_def one_node_def fresh_executor_def)
  have throws: "IProcessor_expandPipeline ?env2 h2 (processor n2) = (Inl 7, h2)"
    by (simp add: scripted_env_def)
  have len2: "length (nodes (executor ?w2)) = 1"
    by (simp add: walk_at_def one_node_def fresh_executor_def)
  from prepare_node_status_transition[OF stack2 pid2 call2 step2] throws
  have t2: "r2 = Some False" "exception (nodes (executor w2') ! 0) = Some 7"
    "length (nodes (executor w2')) = 1"
    using len2 by simp_all
  then have e2: "map exception (nodes (executor w2')) = [Some 7]"
    by (cases "nodes (executor w2')") simp_all
  obtain r3 w3' where step3: "prepare_node growing_env ?w3 = (r3, w3')"
    by (cases "prepare_node growing_env ?w3")
  have stack3: "updated_processors ?w3 = 0 # []" and pid3: "0 < length (nodes (executor ?w3))"
    by (simp_all add: walk_at_def expanding_node_def)
  have call3: "call_prepare growing_env (heap (executor ?w3)) (nodes (executor ?w3) ! 0) =
      (Returns ExpandPipeline, [\<lparr>processor_description = [], impl = []\<rparr>],
       (fresh_node 0 [] [])\<lparr>status := Preparing, last_processor_status := ExpandPipeline\<rparr>)"
    by (simp add: call_prepare_def growing_env_def scripted_env_def walk_at_def
        expanding_node_def one_node_def fresh_executor_def fresh_node_def)
  let ?h = "[\<lparr>processor_description = [], impl = ([] :: script)\<rparr>]"
  let ?n = "(fresh_node 0 [] [])\<lparr>status := Preparing, last_processor_status := ExpandPipeline\<rparr>"
  have x3: "IProcessor_expandPipeline growing_env ?h (processor ?n) = (Inr ?h, ?h)"
    by (simp add: growing_env_def scripted_env_def)
  have g3: "ExecutingGraph_expandPipeline growing_env (?h @ ?h)
              (processors (executor ?w3) @ [length ?h ..< length ?h + length ?h])
              ((nodes (executor ?w3))[0 := ?n]) = ([?n, fresh_node 1 [] []], [1])"
    by (simp add: growing_env_def walk_at_def expanding_node_def)
  have f3: "fold (stage_updated_node
                   (edge_sizes back_edges (length (processors (executor ?w3)) + length ?h)
                      ((nodes (executor ?w3))[0 := ?n]))
                   (edge_sizes direct_edges (length (processors (executor ?w3)) + length ?h)
                      ((nodes (executor ?w3))[0 := ?n])))
              [1] ([], [?n, fresh_node 1 [] []]) =
            ([1], [?n, (fresh_node 1 [] [])\<lparr>status := Preparing\<rparr>])"
    by (simp add: stage_updated_node_def edge_sizes_def fresh_node_def walk_at_def
        expanding_node_def one_node_def fresh_executor_def Let_def)
  have old3: "status (nodes (executor ?w3) ! 0) = Preparing"
    by (simp add: walk_at_def expanding_node_def)
  from prepare_node_status_transition[OF stack3 pid3 call3 step3] x3 g3 f3
    keeps_status_growing[of 0] old3
  have t3: "r3 = None"
    "w3' = ?w3\<lparr>executor := (executor ?w3)\<lparr>heap := ?h @ ?h,
                     processors := processors (executor ?w3) @ [length ?h ..< length ?h + length ?h],
                     nodes := [?n, (fresh_node 1 [] [])\<lparr>status := Preparing\<rparr>]\<rparr>,
                  updated_processors := 0 # [1]\<rparr>"
    "status (nodes (executor w3') ! 0) = Preparing"
    by simp_all
  have t3': "updated_processors w3' = [0, 1]" "processors (executor w3') = [0, 1]"
    "length (heap (executor w3')) = 2"
    "map status (nodes (executor w3')) = [Preparing, Preparing]"
    unfolding t3(2)
    by (simp_all add: walk_at_def expanding_node_def one_node_def fresh_executor_def fresh_node_def)
  from prepare_node_status_transition[OF stack pid call[unfolded out] step]
  have t1: "status (nodes (executor w') ! 0) = Executing" "queue w' = [0]"
    using old
    by (simp_all add: transition_table_def walk_at_def one_node_def fresh_executor_def)
  from t1 t2(1) e2 t3(1) t3' show ?thesis
    using step step2 step3 by simp
qed

text \<open>
  C1 as stated fails on two inputs. A processor answers \<^verbatim>\<open>Ready\<close> at initialisation: its
  node is \<^verbatim>\<open>Executing\<close> and in the task queue. \<^verbatim>\<open>executeStepImpl\<close> prepares the node
  of the task it has executed; when the processor then answers \<^verbatim>\<open>ExpandPipeline\<close>, the
  node is pushed again with the status \<^verbatim>\<open>Executing\<close>, not \<^verbatim>\<open>Preparing\<close>. And when the
  \<^verbatim>\<open>expandPipeline()\<close> of a processor that answered \<^verbatim>\<open>ExpandPipeline\<close> throws, the walk
  returns false with an empty stack: the graph has not grown (one processor, one node) and
  the node is not pushed again.
\<close>

theorem expand_status_counterexample:
  "(case initializeExecution 5 (scripted_env (Inr [])) 1
           (one_node [(Returns Ready, [], []), (Returns ExpandPipeline, [], [])]) of
      None \<Rightarrow> False
    | Some (out, q, aq, s1) \<Rightarrow>
        out = Inr () \<and> task_queue (tasks s1) = [0] \<and> status (nodes s1 ! 0) = Executing \<and>
        (case prepare_node (scripted_env (Inr [])) (walk_at 0 s1) of
           (r, w') \<Rightarrow>
             r = None \<and> updated_processors w' = [0] \<and>
             last_processor_status (nodes (executor w') ! 0) = ExpandPipeline \<and>
             status (nodes (executor w') ! 0) = Executing \<and>
             status (nodes (executor w') ! 0) \<noteq> Preparing)) \<and>
   (case prepare_node (scripted_env (Inl 7))
           (walk_at 0 (one_node [(Returns ExpandPipeline, [], [])])) of
      (r, w') \<Rightarrow>
        r = Some False \<and> updated_processors w' = [] \<and>
        last_processor_status (nodes (executor w') ! 0) = ExpandPipeline \<and>
        processors (executor w') = [0] \<and> length (nodes (executor w')) = 1)"
  by code_simp

subsection \<open>The pending ports handed to prepare\<close>

text \<open>
  C5, as the code has it. The call of \<^verbatim>\<open>prepare\<close> for the node on top of the stack is made
  on the node's processor with the node's \<^verbatim>\<open>updated_input_ports\<close> and
  \<^verbatim>\<open>updated_output_ports\<close> as its two arguments: the outcome of the call and the store it
  leaves are those of \<open>IProcessor_prepare\<close> at these lists. When the call returns, both
  lists are empty right after it, and for every status but \<^verbatim>\<open>ExpandPipeline\<close> they are
  still empty at the end of the step, so the next call gets only ports that were appended
  later. When the call throws, the walk returns false with both lists as they were: the
  next \<^verbatim>\<open>prepare\<close> of the node is given the same ports again.
\<close>

theorem prepare_takes_pending_ports_and_clears_on_return:
  assumes stack: "updated_processors w = pid # rest"
    and pid: "pid < length (nodes (executor w))"
    and call: "call_prepare env (heap (executor w)) (nodes (executor w) ! pid) =
                 (outcome, heap1, node1)"
  shows "outcome = fst (IProcessor_prepare env (heap (executor w))
              (processor (nodes (executor w) ! pid))
              (updated_input_ports (nodes (executor w) ! pid))
              (updated_output_ports (nodes (executor w) ! pid))) \<and>
         heap1 = fst (snd (IProcessor_prepare env (heap (executor w))
              (processor (nodes (executor w) ! pid))
              (updated_input_ports (nodes (executor w) ! pid))
              (updated_output_ports (nodes (executor w) ! pid)))) \<and>
         (\<forall>st. outcome = Returns st \<longrightarrow>
            updated_input_ports node1 = [] \<and> updated_output_ports node1 = [] \<and>
            (st \<noteq> ExpandPipeline \<longrightarrow>
               fst (prepare_node env w) = None \<and>
               updated_input_ports (nodes (executor (snd (prepare_node env w))) ! pid) = [] \<and>
               updated_output_ports (nodes (executor (snd (prepare_node env w))) ! pid) = [])) \<and>
         (\<forall>e. outcome = Throws e \<longrightarrow>
            fst (prepare_node env w) = Some False \<and>
            heap (executor (snd (prepare_node env w))) = heap1 \<and>
            updated_input_ports (nodes (executor (snd (prepare_node env w))) ! pid) =
              updated_input_ports (nodes (executor w) ! pid) \<and>
            updated_output_ports (nodes (executor (snd (prepare_node env w))) ! pid) =
              updated_output_ports (nodes (executor w) ! pid))"
proof -
  have a: "outcome = fst (IProcessor_prepare env (heap (executor w))
              (processor (nodes (executor w) ! pid))
              (updated_input_ports (nodes (executor w) ! pid))
              (updated_output_ports (nodes (executor w) ! pid)))"
    and b: "heap1 = fst (snd (IProcessor_prepare env (heap (executor w))
              (processor (nodes (executor w) ! pid))
              (updated_input_ports (nodes (executor w) ! pid))
              (updated_output_ports (nodes (executor w) ! pid))))"
    using call
    by (auto simp: call_prepare_def Let_def split: prod.splits prepare_outcome.splits)
  have c: "updated_input_ports node1 = [] \<and> updated_output_ports node1 = [] \<and>
            (st \<noteq> ExpandPipeline \<longrightarrow>
               fst (prepare_node env w) = None \<and>
               updated_input_ports (nodes (executor (snd (prepare_node env w))) ! pid) = [] \<and>
               updated_output_ports (nodes (executor (snd (prepare_node env w))) ! pid) = [])"
    if r: "outcome = Returns st" for st
  proof -
    note f = call_prepare_Returns_fields[OF call[unfolded r]]
    have "fst (prepare_node env w) = None \<and>
          updated_input_ports (nodes (executor (snd (prepare_node env w))) ! pid) = [] \<and>
          updated_output_ports (nodes (executor (snd (prepare_node env w))) ! pid) = []"
      if "st \<noteq> ExpandPipeline"
      using prepare_node_not_expand[OF stack call[unfolded r] that] pid f(2,3) by simp
    with f(2,3) show ?thesis by blast
  qed
  have d: "fst (prepare_node env w) = Some False \<and>
            heap (executor (snd (prepare_node env w))) = heap1 \<and>
            updated_input_ports (nodes (executor (snd (prepare_node env w))) ! pid) =
              updated_input_ports (nodes (executor w) ! pid) \<and>
            updated_output_ports (nodes (executor (snd (prepare_node env w))) ! pid) =
              updated_output_ports (nodes (executor w) ! pid)"
    if t: "outcome = Throws e" for e
  proof -
    have n1: "updated_input_ports node1 = updated_input_ports (nodes (executor w) ! pid)"
      "updated_output_ports node1 = updated_output_ports (nodes (executor w) ! pid)"
      using call[unfolded t]
      by (auto simp: call_prepare_def Let_def split: prod.splits prepare_outcome.splits)
    have "prepare_node env w =
            (Some False,
             w\<lparr>executor := (executor w)\<lparr>heap := heap1, nodes := (nodes (executor w))[pid := node1]\<rparr>,
               updated_processors := rest\<rparr>)"
      using stack call[unfolded t] by (simp add: prepare_node_def Let_def)
    then show ?thesis
      using pid n1 by simp
  qed
  show ?thesis
    using a b c d by blast
qed

theorem prepare_takes_pending_ports_and_clears_on_return_witness:
  "snd (impl (heap (executor (snd (prepare_node logged_env (logged_walk [])))) ! 0)) =
     [([3, 4], [5])] \<and>
   updated_input_ports (nodes (executor (snd (prepare_node logged_env (logged_walk [])))) ! 0) = [] \<and>
   updated_output_ports (nodes (executor (snd (prepare_node logged_env (logged_walk [])))) ! 0) = [] \<and>
   fst (prepare_node logged_env (logged_walk [(Throws 1, [], [])])) = Some False \<and>
   snd (impl (heap (executor (snd (prepare_node logged_env (logged_walk [(Throws 1, [], [])])))) ! 0)) =
     [([3, 4], [5])] \<and>
   updated_input_ports
     (nodes (executor (snd (prepare_node logged_env (logged_walk [(Throws 1, [], [])])))) ! 0) = [3, 4] \<and>
   updated_output_ports
     (nodes (executor (snd (prepare_node logged_env (logged_walk [(Throws 1, [], [])])))) ! 0) = [5]"
proof -
  let ?w = "logged_walk []"
  let ?v = "logged_walk [(Throws 1, [], [])]"
  let ?env = logged_env
  have stack: "updated_processors ?w = 0 # []" and pid: "0 < length (nodes (executor ?w))"
    by (simp_all add: logged_walk_def logged_executor_def)
  have stack2: "updated_processors ?v = 0 # []" and pid2: "0 < length (nodes (executor ?v))"
    by (simp_all add: logged_walk_def logged_executor_def)
  obtain out h1 n1 where
    call: "call_prepare ?env (heap (executor ?w)) (nodes (executor ?w) ! 0) = (out, h1, n1)"
    by (cases "call_prepare ?env (heap (executor ?w)) (nodes (executor ?w) ! 0)")
  obtain out2 h2 n2 where
    call2: "call_prepare ?env (heap (executor ?v)) (nodes (executor ?v) ! 0) = (out2, h2, n2)"
    by (cases "call_prepare ?env (heap (executor ?v)) (nodes (executor ?v) ! 0)")
  note t1 = prepare_takes_pending_ports_and_clears_on_return[OF stack pid call]
  note t2 = prepare_takes_pending_ports_and_clears_on_return[OF stack2 pid2 call2]
  have out: "out = Returns NeedData"
    and h1: "h1 = [\<lparr>processor_description = [], impl = ([], [([3, 4], [5])])\<rparr>]"
    using t1 by (simp_all add: logged_walk_def logged_executor_def logged_env_def fresh_node_def)
  have out2: "out2 = Throws 1"
    and h2: "h2 = [\<lparr>processor_description = [], impl = ([], [([3, 4], [5])])\<rparr>]"
    using t2 by (simp_all add: logged_walk_def logged_executor_def logged_env_def fresh_node_def)
  have "prepare_node ?env ?w =
     (None,
      ?w\<lparr>executor := (executor ?w)\<lparr>heap := trigger_post_updated ?env n1 h1,
           nodes := (nodes (executor ?w))
             [0 := n1\<lparr>status := transition_table NeedData (status n1),
                           post_updated_input_ports := [],
                           post_updated_output_ports := []\<rparr>]\<rparr>,
        queue := queue ?w @ (if NeedData = Ready then [0] else []),
        async_queue := async_queue ?w @ (if NeedData = Async then [0] else []),
        updated_edges :=
          post_updated_input_ports n1 @ post_updated_output_ports n1 @ updated_edges ?w,
        updated_processors := []\<rparr>)"
    by (rule prepare_node_not_expand[OF stack call[unfolded out]]) simp
  then have hp: "heap (executor (snd (prepare_node ?env ?w))) = h1"
    by (simp add: trigger_post_updated_def logged_env_def fold_no_trigger)
  have A: "snd (impl (heap (executor (snd (prepare_node ?env ?w))) ! 0)) = [([3, 4], [5])]"
    unfolding hp h1 by simp
  have B: "updated_input_ports (nodes (executor (snd (prepare_node ?env ?w))) ! 0) = [] \<and>
           updated_output_ports (nodes (executor (snd (prepare_node ?env ?w))) ! 0) = []"
    using t1 out by simp
  have C: "fst (prepare_node ?env ?v) = Some False \<and>
           heap (executor (snd (prepare_node ?env ?v))) = h2 \<and>
           updated_input_ports (nodes (executor (snd (prepare_node ?env ?v))) ! 0) =
              updated_input_ports (nodes (executor ?v) ! 0) \<and>
           updated_output_ports (nodes (executor (snd (prepare_node ?env ?v))) ! 0) =
              updated_output_ports (nodes (executor ?v) ! 0)"
    using t2 out2 by simp
  have D: "updated_input_ports (nodes (executor ?v) ! 0) = [3, 4]"
    "updated_output_ports (nodes (executor ?v) ! 0) = [5]"
    by (simp_all add: logged_walk_def logged_executor_def)
  from A B C D h2 show ?thesis
    by simp
qed

text \<open>
  C5 as stated fails: a pending port can be handed to \<^verbatim>\<open>prepare\<close> twice. During
  initialisation node 2 asks the source, the source fills its first output, and node 1 is
  notified: input port 0 is pending. The \<^verbatim>\<open>prepare\<close> of node 1 is given this port and
  throws, so the list is not cleared. When the executor is run again, initialisation
  prepares node 1 again and its \<^verbatim>\<open>prepare\<close> is given input port 0 a second time, although
  no notification has arrived since. The same in two steps: a node with pending ports
  whose \<^verbatim>\<open>prepare\<close> throws, staged again, hands the same ports to the next call.
\<close>

theorem pending_ports_handed_twice_counterexample:
  "(case initializeExecution 10 logged_env 1 fan_out of
      None \<Rightarrow> False
    | Some (out, q, aq, s1) \<Rightarrow>
        out = Inr () \<and>
        map (\<lambda>p. snd (impl p)) (heap s1) = [[([], [1])], [([0], [])], [([], [])]] \<and>
        exception (nodes s1 ! 1) = Some 1 \<and>
        updated_input_ports (nodes s1 ! 1) = [0] \<and>
        (case initializeExecution 10 logged_env 1 s1 of
           None \<Rightarrow> False
         | Some (out2, q2, aq2, s2) \<Rightarrow>
             snd (impl (heap s2 ! 1)) = [([0], []), ([0], [])])) \<and>
   (case prepare_node logged_env (logged_walk [(Throws 1, [], [])]) of
      (r, w') \<Rightarrow>
        r = Some False \<and>
        (case prepare_node logged_env (w'\<lparr>updated_processors := [0]\<rparr>) of
           (r2, w2) \<Rightarrow> snd (impl (heap (executor w2) ! 0)) = [([3, 4], [5]), ([3, 4], [5])]))"
  by code_simp

subsection \<open>initializeExecution\<close>

lemma same_outside_graph_refl: "same_outside_graph s s"
  by (simp add: same_outside_graph_def)

lemma same_outside_graph_trans:
  "same_outside_graph s s1 \<Longrightarrow> same_outside_graph s1 s2 \<Longrightarrow> same_outside_graph s s2"
  by (simp add: same_outside_graph_def)

lemma expandPipeline_frame:
  "expandPipeline env stack pid s = (expanded, stack', s') \<Longrightarrow> same_outside_graph s s'"
  by (auto simp: expandPipeline_def Let_def same_outside_graph_def split: prod.splits sum.splits)

lemma notify_edge_frame: "same_outside_graph (executor w) (executor (notify_edge env w))"
  by (auto simp: notify_edge_def Let_def same_outside_graph_def split: list.splits)

lemma prepare_node_frame:
  assumes "prepare_node env w = (r, w')"
  shows "same_outside_graph (executor w) (executor w')"
proof (cases "updated_processors w")
  case Nil
  with assms show ?thesis
    by (simp add: prepare_node_def same_outside_graph_def)
next
  case (Cons pid rest)
  obtain out h1 n1 where
    call: "call_prepare env (heap (executor w)) (nodes (executor w) ! pid) = (out, h1, n1)"
    by (cases "call_prepare env (heap (executor w)) (nodes (executor w) ! pid)")
  show ?thesis
  proof (cases out)
    case (Throws e)
    with assms Cons call show ?thesis
      by (auto simp: prepare_node_def Let_def same_outside_graph_def)
  next
    case (Returns st)
    show ?thesis
    proof (cases "st = ExpandPipeline")
      case False
      from prepare_node_not_expand[OF Cons call[unfolded Returns] False] assms show ?thesis
        by (auto simp: same_outside_graph_def)
    next
      case True
      let ?s1 = "(executor w)\<lparr>heap := h1, nodes := (nodes (executor w))[pid := n1]\<rparr>"
      obtain expanded stk s1 where e: "expandPipeline env rest pid ?s1 = (expanded, stk, s1)"
        by (cases "expandPipeline env rest pid ?s1")
      from prepare_node_expand[OF Cons call[unfolded Returns True] e] assms
      have "executor w' = s1" by auto
      moreover have "same_outside_graph (executor w) ?s1"
        by (simp add: same_outside_graph_def)
      ultimately show ?thesis
        using expandPipeline_frame[OF e] same_outside_graph_trans by blast
    qed
  qed
qed

lemma prepareProcessor_body_frame:
  "prepareProcessor_body env w = (r, w') \<Longrightarrow> same_outside_graph (executor w) (executor w')"
  using notify_edge_frame[of w env] prepare_node_frame[of env w r w']
  by (auto simp: prepareProcessor_body_def split: if_splits)

lemma prepareProcessor_loop_frame:
  "prepareProcessor_loop fuel env w = Some (b, w') \<Longrightarrow>
   same_outside_graph (executor w) (executor w')"
proof (induction fuel arbitrary: w)
  case 0
  then show ?case by simp
next
  case (Suc fuel)
  show ?case
  proof (cases "updated_processors w = [] \<and> updated_edges w = []")
    case True
    with Suc.prems show ?thesis by (simp add: same_outside_graph_refl)
  next
    case False
    obtain r w1 where body: "prepareProcessor_body env w = (r, w1)"
      by (cases "prepareProcessor_body env w")
    note f1 = prepareProcessor_body_frame[OF body]
    show ?thesis
    proof (cases r)
      case None
      with Suc.prems False body have "prepareProcessor_loop fuel env w1 = Some (b, w')"
        by simp
      from Suc.IH[OF this] f1 show ?thesis
        using same_outside_graph_trans by blast
    next
      case (Some b')
      with Suc.prems False body have "w' = w1" by simp
      with f1 show ?thesis by simp
    qed
  qed
qed

lemma prepareProcessor_frame:
  "prepareProcessor fuel env pid q aq s = Some (b, w') \<Longrightarrow> same_outside_graph s (executor w')"
  unfolding prepareProcessor_def
  by (drule prepareProcessor_loop_frame) simp

lemma initializeExecution_loop_Some:
  "initializeExecution_loop fuel env stack q [] s = Some (r, q', aq', s') \<Longrightarrow>
   same_outside_graph s s' \<and>
   (aq' = [] \<longrightarrow> r = None) \<and>
   (aq' \<noteq> [] \<longrightarrow>
      r = Some (Exception LOGICAL_ERROR
                 (''Async is only possible after work() call. Processor '' @
                  IProcessor_getName env (heap s' ! processor (nodes s' ! hd aq')))))"
proof (induction stack arbitrary: q s)
  case Nil
  then show ?case by (simp add: same_outside_graph_refl)
next
  case (Cons proc stack)
  show ?case
  proof (cases "prepareProcessor fuel env proc q [] s")
    case None
    with Cons.prems show ?thesis by simp
  next
    case (Some bw)
    obtain b w where bw: "bw = (b, w)" by (cases bw)
    note f = prepareProcessor_frame[OF Some[unfolded bw]]
    show ?thesis
    proof (cases "async_queue w = []")
      case True
      with Some bw Cons.prems have
        "initializeExecution_loop fuel env stack (queue w) [] (executor w) = Some (r, q', aq', s')"
        by simp
      from Cons.IH[OF this] f show ?thesis
        using same_outside_graph_trans by blast
    next
      case False
      with Some bw Cons.prems f show ?thesis by auto
    qed
  qed
qed

lemma addChildless_frame:
  "addChildlessProcessorsToStack stack s = (stack', s') \<Longrightarrow>
   same_outside_graph s s' \<and> heap s' = heap s \<and> processors s' = processors s"
  by (auto simp: addChildlessProcessorsToStack_def Let_def same_outside_graph_def split: prod.splits)

lemma answered_simps [simp]:
  "answered st [] = []"
  "answered st ((pid, st') # as) = (if st' = st then pid # answered st as else answered st as)"
  "answered st (as @ bs) = answered st as @ answered st bs"
  by (simp_all add: answered_def)

lemma answered_empty: "answered st as = [] \<longleftrightarrow> (\<forall>pid. (pid, st) \<notin> set as)"
  by (induction as) (auto simp: answered_def)

lemma notify_edge_queues:
  "queue (notify_edge env w) = queue w \<and> async_queue (notify_edge env w) = async_queue w"
  by (auto simp: notify_edge_def Let_def split: list.splits)

lemma prepareProcessor_body_answer:
  assumes "prepareProcessor_body env w = (r, w1)"
  shows "queue w1 = queue w @ answered Ready (answer env w) \<and>
         async_queue w1 = async_queue w @ answered Async (answer env w)"
proof (cases "updated_processors w")
  case Nil
  with assms notify_edge_queues[of env w] show ?thesis
    by (auto simp: prepareProcessor_body_def answer_def)
next
  case (Cons pid rest)
  with assms have step: "prepare_node env w = (r, w1)"
    by (simp add: prepareProcessor_body_def)
  obtain out h1 n1 where
    call: "call_prepare env (heap (executor w)) (nodes (executor w) ! pid) = (out, h1, n1)"
    by (cases "call_prepare env (heap (executor w)) (nodes (executor w) ! pid)")
  show ?thesis
  proof (cases out)
    case (Throws e)
    with step Cons call show ?thesis
      by (auto simp: prepare_node_def Let_def answer_def)
  next
    case (Returns st)
    have ans: "answer env w = [(pid, st)]"
      using Cons call Returns by (simp add: answer_def)
    show ?thesis
    proof (cases "st = ExpandPipeline")
      case False
      from prepare_node_not_expand[OF Cons call[unfolded Returns] False] step
      have "queue w1 = queue w @ (if st = Ready then [pid] else [])"
        "async_queue w1 = async_queue w @ (if st = Async then [pid] else [])"
        by auto
      then show ?thesis
        unfolding ans by auto
    next
      case True
      let ?s1 = "(executor w)\<lparr>heap := h1, nodes := (nodes (executor w))[pid := n1]\<rparr>"
      obtain expanded stk s1 where e: "expandPipeline env rest pid ?s1 = (expanded, stk, s1)"
        by (cases "expandPipeline env rest pid ?s1")
      from prepare_node_expand[OF Cons call[unfolded Returns True] e] step
      have "queue w1 = queue w" "async_queue w1 = async_queue w" by auto
      then show ?thesis
        unfolding ans using True by simp
    qed
  qed
qed

lemma prepareProcessor_loop_answers:
  "prepareProcessor_loop n env w = Some (ok, w') \<Longrightarrow>
   queue w' = queue w @ answered Ready (answers n env w) \<and>
   async_queue w' = async_queue w @ answered Async (answers n env w)"
proof (induction n arbitrary: w)
  case 0
  then show ?case by simp
next
  case (Suc n)
  show ?case
  proof (cases "updated_processors w = [] \<and> updated_edges w = []")
    case True
    with Suc.prems show ?thesis by auto
  next
    case False
    obtain r w1 where body: "prepareProcessor_body env w = (r, w1)"
      by (cases "prepareProcessor_body env w")
    note b = prepareProcessor_body_answer[OF body]
    have unf: "answers (Suc n) env w =
                 answer env w @ (case r of None \<Rightarrow> answers n env w1 | Some b' \<Rightarrow> [])"
      using False body by auto
    show ?thesis
    proof (cases r)
      case None
      with Suc.prems False body have "prepareProcessor_loop n env w1 = Some (ok, w')"
        by simp
      from Suc.IH[OF this] b show ?thesis
        unfolding unf None by simp
    next
      case (Some b')
      with Suc.prems False body have "w' = w1" by simp
      with b show ?thesis
        unfolding unf Some by simp
    qed
  qed
qed

lemma seeded_calls_loop:
  "(initializeExecution_loop fuel env stack q [] s = None \<longleftrightarrow>
      (\<exists>call \<in> set (seeded_calls fuel env stack q s). snd (snd call) = None)) \<and>
   (\<forall>r q' aq' s'. initializeExecution_loop fuel env stack q [] s = Some (r, q', aq', s') \<longrightarrow>
      (if \<exists>call \<in> set (seeded_calls fuel env stack q s). answered Async (fst (snd call)) \<noteq> []
       then aq' = answered Async (fst (snd (last (seeded_calls fuel env stack q s)))) \<and> aq' \<noteq> []
       else aq' = [] \<and> map fst (seeded_calls fuel env stack q s) = stack \<and>
            q' = q @ concat (map (\<lambda>call. answered Ready (fst (snd call)))
                               (seeded_calls fuel env stack q s))))"
proof (induction stack arbitrary: q s)
  case Nil
  show ?case by simp
next
  case (Cons proc stack)
  let ?w0 = "\<lparr>executor = s, queue = q, async_queue = [], updated_edges = [],
              updated_processors = push proc []\<rparr>"
  show ?case
  proof (cases "prepareProcessor fuel env proc q [] s")
    case None
    then show ?thesis by simp
  next
    case (Some bw)
    obtain b w where bw: "bw = (b, w)" by (cases bw)
    from Some bw have run: "prepareProcessor_loop fuel env ?w0 = Some (b, w)"
      by (simp add: prepareProcessor_def)
    from prepareProcessor_loop_answers[OF run]
    have qs: "queue w = q @ answered Ready (answers fuel env ?w0)"
      "async_queue w = answered Async (answers fuel env ?w0)"
      by simp_all
    show ?thesis
    proof (cases "async_queue w = []")
      case False
      with Some bw qs show ?thesis
        by simp
    next
      case True
      note IH = Cons.IH[of "queue w" "executor w"]
      have calls: "seeded_calls fuel env (proc # stack) q s =
          (proc, answers fuel env ?w0, Some (b, w)) #
          seeded_calls fuel env stack (queue w) (executor w)"
        using Some bw True by simp
      have loop: "initializeExecution_loop fuel env (proc # stack) q [] s =
          initializeExecution_loop fuel env stack (queue w) [] (executor w)"
        using Some bw True by simp
      have none: "answered Async (answers fuel env ?w0) = []"
        using True qs by simp
      show ?thesis
        unfolding calls loop
        using IH none qs(1) by (auto split: if_splits)
    qed
  qed
qed


text \<open>
  C7. \<^verbatim>\<open>initializeExecution\<close> seeds the childless nodes and calls \<^verbatim>\<open>prepareProcessor\<close> on
  them from the top of the stack, each call going on from the ready queue and the
  executor that the previous one left; \<open>calls\<close> lists the calls it makes. It returns or
  throws unless one of these calls does not return. When a \<^verbatim>\<open>prepare\<close> answers \<^verbatim>\<open>Async\<close>
  during one of the calls, \<^verbatim>\<open>initializeExecution\<close> throws, after that call, the
  \<^verbatim>\<open>LOGICAL_ERROR\<close> ``Async is only possible after work() call'' naming the processor of
  the first node that answered \<^verbatim>\<open>Async\<close>, and the task queue is not filled. When no
  \<^verbatim>\<open>prepare\<close> answers \<^verbatim>\<open>Async\<close>, every seeded node has been prepared, in the order of the
  stack, and \<^verbatim>\<open>initializeExecution\<close> returns, initialised, with the thread contexts
  created and the task queue extended by the ready queue: the nodes that answered
  \<^verbatim>\<open>Ready\<close>, in the order of their answers.
\<close>

theorem initializeExecution_async_is_logical_error:
  assumes seed: "addChildlessProcessorsToStack [] (s\<lparr>is_execution_initialized := True\<rparr>) =
                   (seeds, s2)"
    and calls: "calls = seeded_calls fuel env seeds []
                          (s2\<lparr>tasks := ExecutorTasks_init num_threads (tasks s2)\<rparr>)"
  shows "(initializeExecution fuel env num_threads s = None \<longleftrightarrow>
            (\<exists>call \<in> set calls. snd (snd call) = None)) \<and>
         (\<forall>out q aq s'. initializeExecution fuel env num_threads s = Some (out, q, aq, s') \<longrightarrow>
            is_execution_initialized s' \<and>
            executor_contexts (tasks s') = replicate num_threads None \<and>
            ((\<exists>call \<in> set calls. \<exists>pid. (pid, Async) \<in> set (fst (snd call))) \<longrightarrow>
               out = Inl (Exception LOGICAL_ERROR
                       (''Async is only possible after work() call. Processor '' @
                        IProcessor_getName env (heap s' ! processor (nodes s' ! hd aq)))) \<and>
               aq = answered Async (fst (snd (last calls))) \<and> aq \<noteq> [] \<and>
               task_queue (tasks s') = task_queue (tasks s)) \<and>
            ((\<forall>call \<in> set calls. \<forall>pid. (pid, Async) \<notin> set (fst (snd call))) \<longrightarrow>
               out = Inr () \<and> map fst calls = seeds \<and> aq = [] \<and>
               q = concat (map (\<lambda>call. answered Ready (fst (snd call))) calls) \<and>
               task_queue (tasks s') = task_queue (tasks s) @ q))"
proof -
  let ?s3 = "s2\<lparr>tasks := ExecutorTasks_init num_threads (tasks s2)\<rparr>"
  have init: "initializeExecution fuel env num_threads s =
     (case initializeExecution_loop fuel env seeds [] [] ?s3 of
        None \<Rightarrow> None
      | Some (Some e, q, aq, s4) \<Rightarrow> Some (Inl e, q, aq, s4)
      | Some (None, q, aq, s4) \<Rightarrow>
          Some (Inr (), q, aq, s4\<lparr>tasks := ExecutorTasks_fill q (tasks s4)\<rparr>))"
    using seed by (simp add: initializeExecution_def)
  have s3: "is_execution_initialized ?s3" "task_queue (tasks ?s3) = task_queue (tasks s)"
    "executor_contexts (tasks ?s3) = replicate num_threads None"
    using addChildless_frame[OF seed]
    by (simp_all add: same_outside_graph_def ExecutorTasks_init_def)
  note L = seeded_calls_loop[of fuel env seeds "[]" ?s3, unfolded calls[symmetric]]
  have asy: "(\<exists>call \<in> set calls. answered Async (fst (snd call)) \<noteq> []) \<longleftrightarrow>
             (\<exists>call \<in> set calls. \<exists>pid. (pid, Async) \<in> set (fst (snd call)))"
    by (simp add: answered_empty)
  have A: "initializeExecution fuel env num_threads s = None \<longleftrightarrow>
            (\<exists>call \<in> set calls. snd (snd call) = None)"
  proof -
    have "initializeExecution fuel env num_threads s = None \<longleftrightarrow>
          initializeExecution_loop fuel env seeds [] [] ?s3 = None"
      unfolding init by (auto split: option.splits prod.splits)
    with conjunct1[OF L] show ?thesis by simp
  qed
  have B: "is_execution_initialized s' \<and>
            executor_contexts (tasks s') = replicate num_threads None \<and>
            ((\<exists>call \<in> set calls. \<exists>pid. (pid, Async) \<in> set (fst (snd call))) \<longrightarrow>
               out = Inl (Exception LOGICAL_ERROR
                       (''Async is only possible after work() call. Processor '' @
                        IProcessor_getName env (heap s' ! processor (nodes s' ! hd aq)))) \<and>
               aq = answered Async (fst (snd (last calls))) \<and> aq \<noteq> [] \<and>
               task_queue (tasks s') = task_queue (tasks s)) \<and>
            ((\<forall>call \<in> set calls. \<forall>pid. (pid, Async) \<notin> set (fst (snd call))) \<longrightarrow>
               out = Inr () \<and> map fst calls = seeds \<and> aq = [] \<and>
               q = concat (map (\<lambda>call. answered Ready (fst (snd call))) calls) \<and>
               task_queue (tasks s') = task_queue (tasks s) @ q)"
    if "initializeExecution fuel env num_threads s = Some (out, q, aq, s')" for out q aq s'
  proof -
    from that init obtain r s4 where
      loop: "initializeExecution_loop fuel env seeds [] [] ?s3 = Some (r, q, aq, s4)"
      and res: "(r = None \<and> out = Inr () \<and> s' = s4\<lparr>tasks := ExecutorTasks_fill q (tasks s4)\<rparr>) \<or>
                (\<exists>e. r = Some e \<and> out = Inl e \<and> s' = s4)"
      by (auto split: option.splits prod.splits)
    note S = initializeExecution_loop_Some[OF loop]
    from conjunct2[OF L, rule_format, OF loop] have
      C: "if \<exists>call \<in> set calls. answered Async (fst (snd call)) \<noteq> []
          then aq = answered Async (fst (snd (last calls))) \<and> aq \<noteq> []
          else aq = [] \<and> map fst calls = seeds \<and>
               q = [] @ concat (map (\<lambda>call. answered Ready (fst (snd call))) calls)"
      .
    have frame: "is_execution_initialized s'"
      "executor_contexts (tasks s') = replicate num_threads None"
      using S res s3 by (auto simp: same_outside_graph_def ExecutorTasks_fill_def)
    have yes: "out = Inl (Exception LOGICAL_ERROR
                       (''Async is only possible after work() call. Processor '' @
                        IProcessor_getName env (heap s' ! processor (nodes s' ! hd aq)))) \<and>
               aq = answered Async (fst (snd (last calls))) \<and> aq \<noteq> [] \<and>
               task_queue (tasks s') = task_queue (tasks s)"
      if "\<exists>call \<in> set calls. \<exists>pid. (pid, Async) \<in> set (fst (snd call))"
    proof -
      from that asy have ex: "\<exists>call \<in> set calls. answered Async (fst (snd call)) \<noteq> []"
        by blast
      note C1 = C[unfolded if_P[OF ex]]
      have aq: "aq = answered Async (fst (snd (last calls)))" "aq \<noteq> []"
        using C1 by blast+
      with S res s3 show ?thesis
        by (auto simp: same_outside_graph_def)
    qed
    have no: "out = Inr () \<and> map fst calls = seeds \<and> aq = [] \<and>
               q = concat (map (\<lambda>call. answered Ready (fst (snd call))) calls) \<and>
               task_queue (tasks s') = task_queue (tasks s) @ q"
      if "\<forall>call \<in> set calls. \<forall>pid. (pid, Async) \<notin> set (fst (snd call))"
    proof -
      from that asy have nex: "\<not> (\<exists>call \<in> set calls. answered Async (fst (snd call)) \<noteq> [])"
        by blast
      note C2 = C[unfolded if_not_P[OF nex]]
      from C2 have c: "aq = []" "map fst calls = seeds"
        "q = concat (map (\<lambda>call. answered Ready (fst (snd call))) calls)"
        by simp_all
      from c(1) S res s3 have "out = Inr ()" "task_queue (tasks s') = task_queue (tasks s) @ q"
        by (auto simp: same_outside_graph_def ExecutorTasks_fill_def)
      with c show ?thesis by blast
    qed
    show ?thesis
      using frame yes no by blast
  qed
  show ?thesis
    using A B by blast
qed


theorem initializeExecution_async_is_logical_error_witness:
  "map_option fst
     (initializeExecution 10 (scripted_env (Inr [])) 1
        (three_lone [(Returns Ready, [], [])] [(Returns Async, [], [])] [(Returns Ready, [], [])])) =
     Some (Inl (Exception LOGICAL_ERROR
                 ''Async is only possible after work() call. Processor Scripted'')) \<and>
   map_option (\<lambda>(out, q, aq, s'). (out, q, task_queue (tasks s')))
     (initializeExecution 10 (scripted_env (Inr [])) 1
        (three_lone [(Returns Ready, [], [])] [] [(Returns Ready, [], [])])) =
     Some (Inr (), [2, 0], [2, 0])"
proof -
  let ?env = "scripted_env (Inr [])"
  let ?a = "three_lone [(Returns Ready, [], [])] [(Returns Async, [], [])] [(Returns Ready, [], [])]"
  let ?r = "three_lone [(Returns Ready, [], [])] [] [(Returns Ready, [], [])]"
  let ?seeds_a = "fst (addChildlessProcessorsToStack [] (?a\<lparr>is_execution_initialized := True\<rparr>))"
  let ?s2_a = "snd (addChildlessProcessorsToStack [] (?a\<lparr>is_execution_initialized := True\<rparr>))"
  let ?calls_a = "seeded_calls 10 ?env ?seeds_a []
                    (?s2_a\<lparr>tasks := ExecutorTasks_init 1 (tasks ?s2_a)\<rparr>)"
  let ?seeds_r = "fst (addChildlessProcessorsToStack [] (?r\<lparr>is_execution_initialized := True\<rparr>))"
  let ?s2_r = "snd (addChildlessProcessorsToStack [] (?r\<lparr>is_execution_initialized := True\<rparr>))"
  let ?calls_r = "seeded_calls 10 ?env ?seeds_r []
                    (?s2_r\<lparr>tasks := ExecutorTasks_init 1 (tasks ?s2_r)\<rparr>)"
  have seed_a: "addChildlessProcessorsToStack [] (?a\<lparr>is_execution_initialized := True\<rparr>) =
                  (?seeds_a, ?s2_a)"
    by simp
  have seed_r: "addChildlessProcessorsToStack [] (?r\<lparr>is_execution_initialized := True\<rparr>) =
                  (?seeds_r, ?s2_r)"
    by simp
  note ta = initializeExecution_async_is_logical_error[OF seed_a refl, of 10 ?env 1]
  note tr = initializeExecution_async_is_logical_error[OF seed_r refl, of 10 ?env 1]
  have obs_a: "map (\<lambda>call. (fst call, fst (snd call), snd (snd call) = None)) ?calls_a =
                 [(2, [(2, Ready)], False), (1, [(1, Async)], False)]"
    by code_simp
  have obs_r: "map (\<lambda>call. (fst call, fst (snd call), snd (snd call) = None)) ?calls_r =
                 [(2, [(2, Ready)], False), (1, [(1, NeedData)], False), (0, [(0, Ready)], False)]"
    by code_simp
  have ret_a: "\<not> (\<exists>call \<in> set ?calls_a. snd (snd call) = None)"
  proof
    assume "\<exists>call \<in> set ?calls_a. snd (snd call) = None"
    then obtain call where "call \<in> set ?calls_a" "snd (snd call) = None" by blast
    then have "(fst call, fst (snd call), True) \<in>
                 set (map (\<lambda>call. (fst call, fst (snd call), snd (snd call) = None)) ?calls_a)"
      by force
    then show False unfolding obs_a by simp
  qed
  have ret_r: "\<not> (\<exists>call \<in> set ?calls_r. snd (snd call) = None)"
  proof
    assume "\<exists>call \<in> set ?calls_r. snd (snd call) = None"
    then obtain call where "call \<in> set ?calls_r" "snd (snd call) = None" by blast
    then have "(fst call, fst (snd call), True) \<in>
                 set (map (\<lambda>call. (fst call, fst (snd call), snd (snd call) = None)) ?calls_r)"
      by force
    then show False unfolding obs_r by simp
  qed
  have ans_a: "map (\<lambda>call. fst (snd call)) ?calls_a = [[(2, Ready)], [(1, Async)]]"
    using arg_cong[OF obs_a, of "map (\<lambda>t. fst (snd t))"] by (simp add: comp_def)
  have ans_r: "map (\<lambda>call. fst (snd call)) ?calls_r = [[(2, Ready)], [(1, NeedData)], [(0, Ready)]]"
    using arg_cong[OF obs_r, of "map (\<lambda>t. fst (snd t))"] by (simp add: comp_def)
  have async_a: "\<exists>call \<in> set ?calls_a. \<exists>pid. (pid, Async) \<in> set (fst (snd call))"
  proof -
    have "[(1, Async)] \<in> set (map (\<lambda>call. fst (snd call)) ?calls_a)"
      unfolding ans_a by simp
    then obtain call where "call \<in> set ?calls_a" "fst (snd call) = [(1, Async)]"
      by auto
    then show ?thesis by force
  qed
  have async_r: "\<forall>call \<in> set ?calls_r. \<forall>pid. (pid, Async) \<notin> set (fst (snd call))"
  proof (intro ballI allI)
    fix call pid assume "call \<in> set ?calls_r"
    then have "fst (snd call) \<in> set (map (\<lambda>call. fst (snd call)) ?calls_r)"
      by simp
    then show "(pid, Async) \<notin> set (fst (snd call))"
      unfolding ans_r by auto
  qed
  from conjunct1[OF ta] ret_a obtain out q aq s' where
    run_a: "initializeExecution 10 ?env 1 ?a = Some (out, q, aq, s')"
    by (cases "initializeExecution 10 ?env 1 ?a") auto
  from conjunct2[OF ta, rule_format, OF run_a] async_a
  have "out = Inl (Exception LOGICAL_ERROR
                 (''Async is only possible after work() call. Processor '' @
                  IProcessor_getName ?env (heap s' ! processor (nodes s' ! hd aq))))"
    by blast
  then have A: "out = Inl (Exception LOGICAL_ERROR
                 ''Async is only possible after work() call. Processor Scripted'')"
    by (simp add: scripted_env_def)
  from conjunct1[OF tr] ret_r obtain out2 q2 aq2 s2' where
    run_r: "initializeExecution 10 ?env 1 ?r = Some (out2, q2, aq2, s2')"
    by (cases "initializeExecution 10 ?env 1 ?r") auto
  from conjunct2[OF tr, rule_format, OF run_r] async_r
  have B0: "out2 = Inr () \<and>
            q2 = concat (map (\<lambda>call. answered Ready (fst (snd call))) ?calls_r) \<and>
            task_queue (tasks s2') = task_queue (tasks ?r) @ q2"
    by blast
  have "concat (map (\<lambda>call. answered Ready (fst (snd call))) ?calls_r) =
        concat (map (answered Ready) (map (\<lambda>call. fst (snd call)) ?calls_r))"
    by (simp add: comp_def)
  also have "\<dots> = [2, 0]"
    unfolding ans_r by simp
  finally have B: "out2 = Inr ()" "q2 = [2, 0]" "task_queue (tasks s2') = [2, 0]"
    using B0 by (simp_all add: three_lone_def fresh_executor_def)
  from A B run_a run_r show ?thesis
    by simp
qed

subsection \<open>The diagnostic dump\<close>

lemma describe_node_length: "length (describe_node env node h) = length h"
  by (simp add: describe_node_def)

lemma fold_describe_length: "length (fold (describe_node env) ns h) = length h"
  by (induction ns arbitrary: h) (simp_all add: describe_node_length)

lemma describe_node_nth_other: "a \<noteq> processor node \<Longrightarrow> describe_node env node h ! a = h ! a"
  by (simp add: describe_node_def)

lemma describe_node_nth_same:
  "processor node < length h \<Longrightarrow>
   describe_node env node h ! processor node =
     setDescription (node_description env node) (h ! processor node)"
  by (simp add: describe_node_def)

lemma fold_describe_other:
  "a \<notin> processor ` set ns \<Longrightarrow> fold (describe_node env) ns h ! a = h ! a"
  by (induction ns arbitrary: h) (auto simp: describe_node_nth_other)

lemma fold_describe_node:
  "distinct (map processor ns) \<Longrightarrow> node \<in> set ns \<Longrightarrow> processor node < length h \<Longrightarrow>
   fold (describe_node env) ns h ! processor node =
     setDescription (node_description env node) (h ! processor node)"
proof (induction ns arbitrary: h)
  case Nil
  then show ?case by simp
next
  case (Cons n ns)
  show ?case
  proof (cases "node = n")
    case True
    with Cons.prems have "processor node \<notin> processor ` set ns" by auto
    then have "fold (describe_node env) ns (describe_node env n h) ! processor node =
               describe_node env n h ! processor node"
      by (rule fold_describe_other)
    with True Cons.prems show ?thesis
      by (simp add: describe_node_nth_same)
  next
    case False
    with Cons.prems have in_ns: "node \<in> set ns" and ne: "processor n \<noteq> processor node"
      by auto
    have "fold (describe_node env) ns (describe_node env n h) ! processor node =
          setDescription (node_description env node) (describe_node env n h ! processor node)"
      using Cons.IH[of "describe_node env n h"] Cons.prems in_ns
      by (simp add: describe_node_length)
    with ne show ?thesis
      by (simp add: describe_node_nth_other)
  qed
qed

text \<open>
  C10. \<^verbatim>\<open>dumpPipeline\<close> writes to the processors: when every node has a processor of its
  own, the dump leaves the description of each node's processor overwritten with
  ``('', the node's count of executed jobs in decimal, `` jobs'', the timing text of a
  debug build, and ``)''. The rest of the processor and of the executor is untouched,
  and the text returned is printed from the processors so described.
\<close>

theorem dumpPipeline_overwrites_descriptions:
  assumes "distinct (map processor (nodes s))"
    and "\<forall>node \<in> set (nodes s). processor node < length (heap s)"
  shows "(\<forall>node \<in> set (nodes s).
            processor_description (heap (snd (dumpPipeline env s)) ! processor node) =
              ''('' @ writeIntText (num_executed_jobs node) @ '' jobs'' @
              debug_timings env node @ '')'' \<and>
            impl (heap (snd (dumpPipeline env s)) ! processor node) =
              impl (heap s ! processor node)) \<and>
         snd (dumpPipeline env s) = s\<lparr>heap := heap (snd (dumpPipeline env s))\<rparr> \<and>
         fst (dumpPipeline env s) =
           printPipeline env (map (\<lambda>p. heap (snd (dumpPipeline env s)) ! p) (processors s))
             (map last_processor_status (nodes s))"
proof -
  let ?h1 = "fold (describe_node env) (nodes s) (heap s)"
  have d: "dumpPipeline env s =
     (printPipeline env (map (\<lambda>p. ?h1 ! p) (processors s)) (map last_processor_status (nodes s)),
      s\<lparr>heap := ?h1\<rparr>)"
    by (simp add: dumpPipeline_def Let_def)
  have h: "heap (snd (dumpPipeline env s)) = ?h1"
    by (simp add: d)
  have "?h1 ! processor node = setDescription (node_description env node) (heap s ! processor node)"
    if "node \<in> set (nodes s)" for node
    using fold_describe_node[OF assms(1) that] assms(2) that by blast
  then have "\<forall>node \<in> set (nodes s).
            processor_description (?h1 ! processor node) =
              ''('' @ writeIntText (num_executed_jobs node) @ '' jobs'' @
              debug_timings env node @ '')'' \<and>
            impl (?h1 ! processor node) = impl (heap s ! processor node)"
    by (simp add: setDescription_def node_description_def)
  then show ?thesis
    unfolding h by (simp add: d)
qed

lemma writeIntText_0: "writeIntText 0 = ''0''"
  by code_simp

theorem dumpPipeline_overwrites_descriptions_witness:
  "processor_description
     (heap (snd (dumpPipeline (scripted_env (Inr [])) (one_node []))) ! 0) = ''(0 jobs)'' \<and>
   processor_description (heap (one_node []) ! 0) = []"
proof -
  let ?s = "one_node []"
  let ?env = "scripted_env (Inr [])"
  let ?n = "fresh_node 0 [] []"
  have n: "nodes ?s = [?n]"
    by (simp add: one_node_def fresh_executor_def)
  have a: "distinct (map processor (nodes ?s))"
    and b: "\<forall>node \<in> set (nodes ?s). processor node < length (heap ?s)"
    by (simp_all add: one_node_def fresh_executor_def fresh_node_def)
  have c: "?n \<in> set (nodes ?s)"
    by (simp add: n)
  have f: "processor ?n = 0" "num_executed_jobs ?n = 0" "debug_timings ?env ?n = []"
    by (simp_all add: fresh_node_def scripted_env_def)
  from dumpPipeline_overwrites_descriptions[OF a b, of ?env] c
  have "processor_description (heap (snd (dumpPipeline ?env ?s)) ! processor ?n) =
          ''('' @ writeIntText (num_executed_jobs ?n) @ '' jobs'' @ debug_timings ?env ?n @ '')''"
    by blast
  then have "processor_description (heap (snd (dumpPipeline ?env ?s)) ! 0) = ''(0 jobs)''"
    unfolding f writeIntText_0 by simp
  moreover have "processor_description (heap ?s ! 0) = []"
    by (simp add: one_node_def fresh_executor_def)
  ultimately show ?thesis by simp
qed

subsection \<open>finalizeExecution\<close>

lemma dump_stuck: "fst (dumpPipeline (scripted_env (Inr [])) stuck_pipeline) = ''(0 jobs)''"
  by code_simp

text \<open>
  C3. When the query was not killed, the \<^verbatim>\<open>cancelled\<close> flag is not set and some node is not
  \<^verbatim>\<open>Finished\<close>, \<^verbatim>\<open>finalizeExecution\<close> throws the \<^verbatim>\<open>LOGICAL_ERROR\<close> whose text is
  ``Pipeline stuck. Current state:'', a newline and the whole dump of the pipeline, and
  leaves the executor as the dump left it. A killed query gets \<^verbatim>\<open>QUERY_WAS_CANCELLED\<close>
  instead, whatever the nodes are; a query that was not killed returns normally when the
  \<^verbatim>\<open>cancelled\<close> flag is set or every node is \<^verbatim>\<open>Finished\<close>. So when every node is
  \<^verbatim>\<open>Finished\<close>, or when cancellation was requested in either way, there is no
  \<^verbatim>\<open>LOGICAL_ERROR\<close> at all.
\<close>

theorem finalizeExecution_pipeline_stuck:
  "(process_list_element s \<noteq> Some True \<and> \<not> cancelled s \<and>
      (\<exists>node \<in> set (nodes s). status node \<noteq> Finished) \<longrightarrow>
      finalizeExecution env s =
        (Inl (Exception LOGICAL_ERROR
               (''Pipeline stuck. Current state:'' @ [CHR 0x0A] @ fst (dumpPipeline env s))),
         snd (dumpPipeline env s))) \<and>
   (process_list_element s = Some True \<longrightarrow>
      finalizeExecution env s = (Inl (Exception QUERY_WAS_CANCELLED ''Query was cancelled''), s)) \<and>
   (process_list_element s \<noteq> Some True \<and>
      (cancelled s \<or> (\<forall>node \<in> set (nodes s). status node = Finished)) \<longrightarrow>
      finalizeExecution env s = (Inr (), s)) \<and>
   ((\<forall>node \<in> set (nodes s). status node = Finished) \<or> cancelled s \<or>
      process_list_element s = Some True \<longrightarrow>
      (\<forall>text. fst (finalizeExecution env s) \<noteq> Inl (Exception LOGICAL_ERROR text)))"
  by (auto simp: finalizeExecution_def list_all_iff split: prod.splits)

theorem finalizeExecution_pipeline_stuck_witness:
  "fst (finalizeExecution (scripted_env (Inr [])) stuck_pipeline) =
     Inl (Exception LOGICAL_ERROR (''Pipeline stuck. Current state:'' @ [CHR 0x0A] @ ''(0 jobs)'')) \<and>
   fst (finalizeExecution (scripted_env (Inr [])) finished_pipeline) = Inr () \<and>
   fst (finalizeExecution (scripted_env (Inr [])) (stuck_pipeline\<lparr>cancelled := True\<rparr>)) = Inr () \<and>
   fst (finalizeExecution (scripted_env (Inr []))
          (stuck_pipeline\<lparr>process_list_element := Some True\<rparr>)) =
     Inl (Exception QUERY_WAS_CANCELLED ''Query was cancelled'') \<and>
   fst (finalizeExecution (scripted_env (Inr []))
          (stuck_pipeline\<lparr>process_list_element := Some True\<rparr>)) \<noteq>
     Inl (Exception LOGICAL_ERROR (''Pipeline stuck. Current state:'' @ [CHR 0x0A] @ ''(0 jobs)''))"
proof -
  let ?env = "scripted_env (Inr [])"
  let ?killed = "stuck_pipeline\<lparr>process_list_element := Some True\<rparr>"
  have a: "process_list_element stuck_pipeline \<noteq> Some True \<and> \<not> cancelled stuck_pipeline \<and>
      (\<exists>node \<in> set (nodes stuck_pipeline). status node \<noteq> Finished)"
    by (simp add: stuck_pipeline_def one_node_def fresh_executor_def fresh_node_def)
  have b: "process_list_element finished_pipeline \<noteq> Some True \<and>
      (cancelled finished_pipeline \<or> (\<forall>node \<in> set (nodes finished_pipeline). status node = Finished))"
    by (simp add: finished_pipeline_def one_node_def fresh_executor_def)
  have c: "process_list_element (stuck_pipeline\<lparr>cancelled := True\<rparr>) \<noteq> Some True \<and>
      (cancelled (stuck_pipeline\<lparr>cancelled := True\<rparr>) \<or>
       (\<forall>node \<in> set (nodes (stuck_pipeline\<lparr>cancelled := True\<rparr>)). status node = Finished))"
    by (simp add: stuck_pipeline_def one_node_def fresh_executor_def)
  have d: "process_list_element ?killed = Some True"
    by simp
  have A: "fst (finalizeExecution ?env stuck_pipeline) =
     Inl (Exception LOGICAL_ERROR (''Pipeline stuck. Current state:'' @ [CHR 0x0A] @ ''(0 jobs)''))"
    using finalizeExecution_pipeline_stuck[of stuck_pipeline ?env] a
    unfolding dump_stuck by simp
  have B: "fst (finalizeExecution ?env finished_pipeline) = Inr ()"
    using finalizeExecution_pipeline_stuck[of finished_pipeline ?env] b by simp
  have C: "fst (finalizeExecution ?env (stuck_pipeline\<lparr>cancelled := True\<rparr>)) = Inr ()"
    using finalizeExecution_pipeline_stuck[of "stuck_pipeline\<lparr>cancelled := True\<rparr>" ?env] c
    by simp
  have D: "fst (finalizeExecution ?env ?killed) =
             Inl (Exception QUERY_WAS_CANCELLED ''Query was cancelled'')"
    using finalizeExecution_pipeline_stuck[of ?killed ?env] d by simp
  have E: "fst (finalizeExecution ?env ?killed) \<noteq>
     Inl (Exception LOGICAL_ERROR (''Pipeline stuck. Current state:'' @ [CHR 0x0A] @ ''(0 jobs)''))"
    using finalizeExecution_pipeline_stuck[of ?killed ?env] d by blast
  from A B C D E show ?thesis by blast
qed

subsection \<open>The exception that execute rethrows\<close>

lemma rethrow_node_exception_first:
  "i < length ns \<Longrightarrow> exception (ns ! i) = Some e \<Longrightarrow> \<forall>j<i. exception (ns ! j) = None \<Longrightarrow>
   rethrow_node_exception ns = Some e"
proof (induction ns arbitrary: i)
  case Nil
  then show ?case by simp
next
  case (Cons n ns)
  show ?case
  proof (cases i)
    case 0
    with Cons.prems show ?thesis by simp
  next
    case (Suc k)
    with Cons.prems have "exception n = None" by auto
    moreover have "\<forall>j<k. exception (ns ! j) = None"
    proof (intro allI impI)
      fix j assume "j < k"
      then have "Suc j < i" using Suc by simp
      with Cons.prems(3) have "exception ((n # ns) ! Suc j) = None" by blast
      then show "exception (ns ! j) = None" by simp
    qed
    then have "rethrow_node_exception ns = Some e"
      using Cons.IH[of k] Cons.prems Suc by auto
    ultimately show ?thesis by simp
  qed
qed

lemma rethrow_node_exception_None:
  "rethrow_node_exception ns = None \<longleftrightarrow> (\<forall>node \<in> set ns. exception node = None)"
  by (induction ns) (auto split: option.splits)

lemma rethrowFirstThreadException_first:
  "i < length cs \<Longrightarrow> cs ! i = Some e \<Longrightarrow> \<forall>j<i. cs ! j = None \<Longrightarrow>
   rethrowFirstThreadException cs = Some e"
proof (induction cs arbitrary: i)
  case Nil
  then show ?case by simp
next
  case (Cons c cs)
  show ?case
  proof (cases i)
    case 0
    with Cons.prems show ?thesis by simp
  next
    case (Suc k)
    with Cons.prems have "c = None" by auto
    moreover have "\<forall>j<k. cs ! j = None"
    proof (intro allI impI)
      fix j assume "j < k"
      then have "Suc j < i" using Suc by simp
      with Cons.prems(3) have "(c # cs) ! Suc j = None" by blast
      then show "cs ! j = None" by simp
    qed
    then have "rethrowFirstThreadException cs = Some e"
      using Cons.IH[of k] Cons.prems Suc by auto
    ultimately show ?thesis by simp
  qed
qed

lemma rethrowFirstThreadException_None:
  "rethrowFirstThreadException cs = None \<longleftrightarrow> (\<forall>c \<in> set cs. c = None)"
  by (induction cs) (auto split: option.splits)

lemma async_sink_throws:
  "map_option fst (initializeExecution 10 (scripted_env (Inr [])) 1 async_sink) =
     Some (Inl (Exception LOGICAL_ERROR
                  ''Async is only possible after work() call. Processor Scripted''))"
  by code_simp

text \<open>
  C4, as the code has it. When \<^verbatim>\<open>executeImpl\<close> throws, as it does when
  \<^verbatim>\<open>initializeExecution\<close> throws, that exception leaves \<^verbatim>\<open>execute\<close> and no captured
  exception is looked at. When \<^verbatim>\<open>executeImpl\<close> has returned, the worker threads having
  stopped, \<^verbatim>\<open>execute\<close> throws as soon as a node or a thread context holds an exception,
  and it throws one exception: that of the first node, in the order of the node table,
  that holds one, and, when no node holds any, that of the first thread context that
  holds one. With no exception captured, the result is that of \<^verbatim>\<open>finalizeExecution\<close>.
\<close>

theorem execute_rethrows_lowest_index_exception:
  "(\<forall>e s1. executeImpl (if num_threads < 1 then 1 else num_threads) s = (Some e, s1) \<longrightarrow>
      execute env executeImpl num_threads s = (Inl e, s1)) \<and>
   (\<forall>s1. executeImpl (if num_threads < 1 then 1 else num_threads) s = (None, s1) \<longrightarrow>
      (\<forall>i e. i < length (nodes s1) \<and> exception (nodes s1 ! i) = Some e \<and>
              (\<forall>j<i. exception (nodes s1 ! j) = None) \<longrightarrow>
         execute env executeImpl num_threads s = (Inl (Rethrown e), s1)) \<and>
      (\<forall>i e. (\<forall>node \<in> set (nodes s1). exception node = None) \<and>
              i < length (executor_contexts (tasks s1)) \<and>
              executor_contexts (tasks s1) ! i = Some e \<and>
              (\<forall>j<i. executor_contexts (tasks s1) ! j = None) \<longrightarrow>
         execute env executeImpl num_threads s = (Inl (Rethrown e), s1)) \<and>
      ((\<forall>node \<in> set (nodes s1). exception node = None) \<and>
       (\<forall>c \<in> set (executor_contexts (tasks s1)). c = None) \<longrightarrow>
         execute env executeImpl num_threads s = finalizeExecution env s1))"
proof -
  have T: "execute env executeImpl num_threads s = (Inl e, s1)"
    if "executeImpl (if num_threads < 1 then 1 else num_threads) s = (Some e, s1)" for e s1
    using that by (simp add: execute_def)
  have A: "execute env executeImpl num_threads s = (Inl (Rethrown e), s1)"
    if "executeImpl (if num_threads < 1 then 1 else num_threads) s = (None, s1)"
       "i < length (nodes s1)" "exception (nodes s1 ! i) = Some e"
       "\<forall>j<i. exception (nodes s1 ! j) = None" for i e s1
    using rethrow_node_exception_first[OF that(2-4)] that(1) by (simp add: execute_def)
  have B: "execute env executeImpl num_threads s = (Inl (Rethrown e), s1)"
    if "executeImpl (if num_threads < 1 then 1 else num_threads) s = (None, s1)"
       "\<forall>node \<in> set (nodes s1). exception node = None"
       "i < length (executor_contexts (tasks s1))"
       "executor_contexts (tasks s1) ! i = Some e"
       "\<forall>j<i. executor_contexts (tasks s1) ! j = None" for i e s1
    using rethrowFirstThreadException_first[OF that(3-5)] that(1,2)
      rethrow_node_exception_None[of "nodes s1"]
    by (simp add: execute_def)
  have C: "execute env executeImpl num_threads s = finalizeExecution env s1"
    if "executeImpl (if num_threads < 1 then 1 else num_threads) s = (None, s1)"
       "\<forall>node \<in> set (nodes s1). exception node = None"
       "\<forall>c \<in> set (executor_contexts (tasks s1)). c = None" for s1
    using that rethrow_node_exception_None[of "nodes s1"]
      rethrowFirstThreadException_None[of "executor_contexts (tasks s1)"]
    by (simp add: execute_def)
  show ?thesis
  proof (intro conjI allI impI)
    fix e s1 assume "executeImpl (if num_threads < 1 then 1 else num_threads) s = (Some e, s1)"
    then show "execute env executeImpl num_threads s = (Inl e, s1)" by (rule T)
  next
    fix s1 i e
    assume "executeImpl (if num_threads < 1 then 1 else num_threads) s = (None, s1)"
      and "i < length (nodes s1) \<and> exception (nodes s1 ! i) = Some e \<and>
              (\<forall>j<i. exception (nodes s1 ! j) = None)"
    then show "execute env executeImpl num_threads s = (Inl (Rethrown e), s1)"
      using A by blast
  next
    fix s1 i e
    assume "executeImpl (if num_threads < 1 then 1 else num_threads) s = (None, s1)"
      and "(\<forall>node \<in> set (nodes s1). exception node = None) \<and>
              i < length (executor_contexts (tasks s1)) \<and>
              executor_contexts (tasks s1) ! i = Some e \<and>
              (\<forall>j<i. executor_contexts (tasks s1) ! j = None)"
    then show "execute env executeImpl num_threads s = (Inl (Rethrown e), s1)"
      using B by blast
  next
    fix s1
    assume "executeImpl (if num_threads < 1 then 1 else num_threads) s = (None, s1)"
      and "(\<forall>node \<in> set (nodes s1). exception node = None) \<and>
       (\<forall>c \<in> set (executor_contexts (tasks s1)). c = None)"
    then show "execute env executeImpl num_threads s = finalizeExecution env s1"
      using C by blast
  qed
qed

theorem execute_rethrows_lowest_index_exception_witness:
  "execute (scripted_env (Inr [])) threads_stopped 0 failed_pipeline =
     (Inl (Rethrown 5), failed_pipeline) \<and>
   fst (execute (scripted_env (Inr [])) (initialised_and_stopped (scripted_env (Inr []))) 0
          async_sink) =
     Inl (Exception LOGICAL_ERROR ''Async is only possible after work() call. Processor Scripted'')"
proof -
  let ?env = "scripted_env (Inr [])"
  have run: "threads_stopped (if (0::nat) < 1 then 1 else 0) failed_pipeline =
               (None, failed_pipeline)"
    by (simp add: threads_stopped_def)
  have first: "(1::nat) < length (nodes failed_pipeline) \<and>
        exception (nodes failed_pipeline ! 1) = Some 5 \<and>
        (\<forall>j<1. exception (nodes failed_pipeline ! j) = None)"
    by (simp add: failed_pipeline_def fresh_node_def)
  note stopped =
    conjunct2[OF execute_rethrows_lowest_index_exception[of threads_stopped 0 failed_pipeline ?env],
      rule_format, OF run]
  have A: "execute ?env threads_stopped 0 failed_pipeline = (Inl (Rethrown 5), failed_pipeline)"
    by (rule conjunct1[OF stopped, rule_format, OF first])
  obtain q aq s1 where
    "initializeExecution 10 ?env 1 async_sink =
       Some (Inl (Exception LOGICAL_ERROR
                    ''Async is only possible after work() call. Processor Scripted''),
             q, aq, s1)"
    using async_sink_throws by (auto simp: map_option_case split: option.splits)
  then have thrown: "initialised_and_stopped ?env (if (0::nat) < 1 then 1 else 0) async_sink =
      (Some (Exception LOGICAL_ERROR
               ''Async is only possible after work() call. Processor Scripted''), s1)"
    by (simp add: initialised_and_stopped_def)
  have B: "execute ?env (initialised_and_stopped ?env) 0 async_sink =
      (Inl (Exception LOGICAL_ERROR
              ''Async is only possible after work() call. Processor Scripted''), s1)"
    by (rule conjunct1[OF execute_rethrows_lowest_index_exception[of "initialised_and_stopped ?env" 0
            async_sink ?env], rule_format, OF thrown])
  from A B show ?thesis by simp
qed

text \<open>
  C4 as stated fails on two runs. Two processors throw from \<^verbatim>\<open>prepare\<close> during
  initialisation: node 1, on top of the seeded stack, is prepared first and its exception
  (11) is captured first, then node 0 fails with 10; \<^verbatim>\<open>execute\<close> rethrows 10, the
  exception of the node with the lower index, not the first one captured, and 11 never
  surfaces. And when a sink answers \<^verbatim>\<open>Async\<close> and its source then throws 3, the exception
  is captured on the source, but \<^verbatim>\<open>initializeExecution\<close> throws its \<^verbatim>\<open>LOGICAL_ERROR\<close>,
  which is what leaves \<^verbatim>\<open>execute\<close>: the captured exception is never rethrown.
\<close>

theorem first_observed_exception_counterexample:
  "fst (addChildlessProcessorsToStack [] two_failing) = [1, 0] \<and>
   map_option (\<lambda>(ok, w). map exception (nodes (executor w)))
     (prepareProcessor 10 (scripted_env (Inr [])) 1 [] []
        (snd (addChildlessProcessorsToStack [] two_failing))) = Some [None, Some 11] \<and>
   map_option (\<lambda>(out, q, aq, s1). (out, map exception (nodes s1)))
     (initializeExecution 10 (scripted_env (Inr [])) 1 two_failing) =
     Some (Inr (), [Some 10, Some 11]) \<and>
   fst (execute (scripted_env (Inr [])) (initialised_and_stopped (scripted_env (Inr []))) 1
          two_failing) = Inl (Rethrown 10) \<and>
   (case execute (scripted_env (Inr [])) (initialised_and_stopped (scripted_env (Inr []))) 1
           async_sink of
      (out, s1) \<Rightarrow>
        out = Inl (Exception LOGICAL_ERROR
                     ''Async is only possible after work() call. Processor Scripted'') \<and>
        map exception (nodes s1) = [Some 3, None, None])"
  by code_simp

subsection \<open>The order in which dirty edges are notified\<close>

lemma with_edges_below_simps [simp]:
  "updated_processors (with_edges_below below w) = updated_processors w"
  "updated_edges (with_edges_below below w) = updated_edges w @ below"
  "executor (with_edges_below below w) = executor w"
  "queue (with_edges_below below w) = queue w"
  "async_queue (with_edges_below below w) = async_queue w"
  by (simp_all add: with_edges_below_def)

lemma notify_edge_below:
  "updated_edges w \<noteq> [] \<Longrightarrow>
   notify_edge env (with_edges_below below w) = with_edges_below below (notify_edge env w)"
  by (cases "updated_edges w")
     (simp_all add: notify_edge_def with_edges_below_def Let_def)

lemma prepare_node_below:
  "updated_processors w \<noteq> [] \<Longrightarrow>
   prepare_node env (with_edges_below below w) =
     (fst (prepare_node env w), with_edges_below below (snd (prepare_node env w)))"
  by (cases "updated_processors w")
     (auto simp: prepare_node_def with_edges_below_def Let_def push_post_updated_eq
        split: prod.splits prepare_outcome.splits)

lemma prepareProcessor_body_below:
  "\<not> (updated_processors w = [] \<and> updated_edges w = []) \<Longrightarrow>
   prepareProcessor_body env (with_edges_below below w) =
     (fst (prepareProcessor_body env w), with_edges_below below (snd (prepareProcessor_body env w)))"
  by (auto simp: prepareProcessor_body_def notify_edge_below prepare_node_below)

lemma prepare_node_not_Some_True: "fst (prepare_node env w) \<noteq> Some True"
  by (auto simp: prepare_node_def Let_def split: list.splits prod.splits prepare_outcome.splits)

lemma prepareProcessor_body_not_Some_True: "fst (prepareProcessor_body env w) \<noteq> Some True"
  by (simp add: prepareProcessor_body_def prepare_node_not_Some_True)

lemma prepareProcessor_loop_True_empty:
  "prepareProcessor_loop n env w = Some (True, w') \<Longrightarrow>
   updated_processors w' = [] \<and> updated_edges w' = []"
proof (induction n arbitrary: w)
  case 0
  then show ?case by simp
next
  case (Suc n)
  show ?case
  proof (cases "updated_processors w = [] \<and> updated_edges w = []")
    case True
    with Suc.prems show ?thesis by auto
  next
    case False
    obtain r w1 where body: "prepareProcessor_body env w = (r, w1)"
      by (cases "prepareProcessor_body env w")
    show ?thesis
    proof (cases r)
      case None
      with Suc.prems False body have "prepareProcessor_loop n env w1 = Some (True, w')"
        by simp
      then show ?thesis by (rule Suc.IH)
    next
      case (Some b)
      with Suc.prems False body have "b = True" by simp
      with Some body prepareProcessor_body_not_Some_True[of env w] show ?thesis
        by simp
    qed
  qed
qed

lemma prepareProcessor_loop_below:
  "prepareProcessor_loop n env (with_edges_below below w) = Some (True, w_end) \<Longrightarrow>
   \<exists>w' k. k \<le> n \<and> prepareProcessor_loop n env w = Some (True, w') \<and>
          prepareProcessor_loop k env (with_edges_below below w') = Some (True, w_end) \<and>
          notified n env (with_edges_below below w) =
            notified n env w @ notified k env (with_edges_below below w')"
proof (induction n arbitrary: w)
  case 0
  then show ?case by simp
next
  case (Suc n)
  show ?case
  proof (cases "updated_processors w = [] \<and> updated_edges w = []")
    case True
    then have "prepareProcessor_loop (Suc n) env w = Some (True, w)"
      and "notified (Suc n) env w = []"
      by simp_all
    with Suc.prems show ?thesis
      by (intro exI[of _ w] exI[of _ "Suc n"]) simp
  next
    case False
    obtain r w1 where body: "prepareProcessor_body env w = (r, w1)"
      by (cases "prepareProcessor_body env w")
    have body': "prepareProcessor_body env (with_edges_below below w) =
                   (r, with_edges_below below w1)"
      using prepareProcessor_body_below[OF False, of env below] body by simp
    have unf: "prepareProcessor_loop (Suc n) env (with_edges_below below w) =
                 (case r of None \<Rightarrow> prepareProcessor_loop n env (with_edges_below below w1)
                  | Some b \<Rightarrow> Some (b, with_edges_below below w1))"
      using False body' by auto
    have unf0: "prepareProcessor_loop (Suc n) env w =
                 (case r of None \<Rightarrow> prepareProcessor_loop n env w1 | Some b \<Rightarrow> Some (b, w1))"
      using False body by auto
    have r: "r = None"
    proof (cases r)
      case None
      then show ?thesis .
    next
      case (Some b)
      with Suc.prems unf have "b = True" by simp
      with Some body prepareProcessor_body_not_Some_True[of env w] show ?thesis
        by simp
    qed
    with Suc.prems unf have
      "prepareProcessor_loop n env (with_edges_below below w1) = Some (True, w_end)"
      by simp
    from Suc.IH[OF this] obtain w' k where
      k: "k \<le> n" and l1: "prepareProcessor_loop n env w1 = Some (True, w')"
      and l2: "prepareProcessor_loop k env (with_edges_below below w') = Some (True, w_end)"
      and tr: "notified n env (with_edges_below below w1) =
                 notified n env w1 @ notified k env (with_edges_below below w')"
      by blast
    have hd_eq: "(if updated_processors w = [] then take 1 (updated_edges w @ below) else []) =
                 (if updated_processors w = [] then take 1 (updated_edges w) else [])"
      using False by (cases "updated_edges w") auto
    have n0: "notified (Suc n) env w =
                (if updated_processors w = [] then take 1 (updated_edges w) else []) @
                notified n env w1"
      using False body r by auto
    have n1: "notified (Suc n) env (with_edges_below below w) =
                (if updated_processors w = [] then take 1 (updated_edges w @ below) else []) @
                notified n env (with_edges_below below w1)"
      using False body' r by auto
    have "prepareProcessor_loop (Suc n) env w = Some (True, w')"
      using unf0 r l1 by simp
    moreover have "notified (Suc n) env (with_edges_below below w) =
                   notified (Suc n) env w @ notified k env (with_edges_below below w')"
      unfolding n0 n1 hd_eq tr by simp
    ultimately show ?thesis
      using k l2 by (intro exI[of _ w'] exI[of _ k]) simp
  qed
qed

lemma notify_edge_pops:
  "updated_edges w = e # es \<Longrightarrow> updated_edges (notify_edge env w) = es"
  by (simp add: notify_edge_def Let_def)

lemma prepareProcessor_delivers_batch:
  "updated_processors w = [] \<Longrightarrow> updated_edges w = batch @ below \<Longrightarrow>
   prepareProcessor_loop n env w = Some (True, w_end) \<Longrightarrow>
   \<exists>segs tail. length segs = length batch \<and>
     notified n env w = concat (map2 (#) batch segs) @ tail"
proof (induction batch arbitrary: w n)
  case Nil
  then show ?case by simp
next
  case (Cons e es)
  from Cons.prems(3) obtain m where n: "n = Suc m"
    by (cases n) simp_all
  let ?w1 = "notify_edge env w"
  let ?u = "?w1\<lparr>updated_edges := []\<rparr>"
  have ne: "\<not> (updated_processors w = [] \<and> updated_edges w = [])"
    using Cons.prems(2) by simp
  have body: "prepareProcessor_body env w = (None, ?w1)"
    using Cons.prems(1) by (simp add: prepareProcessor_body_def)
  have edges1: "updated_edges ?w1 = es @ below"
    using notify_edge_pops[of w e "es @ below" env] Cons.prems(2) by simp
  have w1: "?w1 = with_edges_below (es @ below) ?u"
    using edges1 by (simp add: with_edges_below_def)
  have run1: "prepareProcessor_loop m env ?w1 = Some (True, w_end)"
    using Cons.prems(3) n ne body by simp
  from prepareProcessor_loop_below[of m env "es @ below" ?u w_end] run1 w1
  obtain u' k where
    l1: "prepareProcessor_loop m env ?u = Some (True, u')"
    and l2: "prepareProcessor_loop k env (with_edges_below (es @ below) u') = Some (True, w_end)"
    and tr: "notified m env ?w1 = notified m env ?u @ notified k env (with_edges_below (es @ below) u')"
    by metis
  from prepareProcessor_loop_True_empty[OF l1]
  have "updated_processors (with_edges_below (es @ below) u') = []"
    and "updated_edges (with_edges_below (es @ below) u') = es @ below"
    by simp_all
  from Cons.IH[OF this l2] obtain segs tail where
    segs: "length segs = length es"
    and tr2: "notified k env (with_edges_below (es @ below) u') = concat (map2 (#) es segs) @ tail"
    by blast
  have "notified n env w = [e] @ notified m env ?w1"
    using n ne body Cons.prems(1,2) by simp
  then have "notified n env w =
      concat (map2 (#) (e # es) (notified m env ?u # segs)) @ tail"
    using tr tr2 by simp
  then show ?case
    using segs by (intro exI[of _ "notified m env ?u # segs"] exI[of _ tail]) simp
qed

lemma prepareProcessor_loop_unfold:
  assumes "\<not> (updated_processors w = [] \<and> updated_edges w = [])"
    and "prepareProcessor_body env w = (r, w1)"
  shows "prepareProcessor_loop (Suc k) env w =
           (case r of None \<Rightarrow> prepareProcessor_loop k env w1 | Some b \<Rightarrow> Some (b, w1))"
  using assms by auto

lemma prepareProcessor_loop_mono:
  "prepareProcessor_loop n env w = Some r \<Longrightarrow> n \<le> m \<Longrightarrow> prepareProcessor_loop m env w = Some r"
proof (induction n arbitrary: w m)
  case 0
  then show ?case by simp
next
  case (Suc n)
  from Suc.prems(2) obtain m' where m: "m = Suc m'" "n \<le> m'"
    by (cases m) auto
  show ?case
  proof (cases "updated_processors w = [] \<and> updated_edges w = []")
    case True
    then have "prepareProcessor_loop (Suc n) env w = Some (True, w)"
      "prepareProcessor_loop (Suc m') env w = Some (True, w)"
      by simp_all
    with Suc.prems(1) m(1) show ?thesis by simp
  next
    case False
    obtain r' w1 where body: "prepareProcessor_body env w = (r', w1)"
      by (cases "prepareProcessor_body env w")
    note unf = prepareProcessor_loop_unfold[OF False body]
    show ?thesis
    proof (cases r')
      case None
      with Suc.prems(1) unf[of n] have "prepareProcessor_loop n env w1 = Some r" by simp
      from Suc.IH[OF this m(2)] show ?thesis
        unfolding m(1) unf[of m'] None by simp
    next
      case (Some b)
      with Suc.prems(1) unf[of n] unf[of m'] show ?thesis
        unfolding m(1) by simp
    qed
  qed
qed

lemma prepareProcessor_loop_below_any:
  "prepareProcessor_loop n env (with_edges_below below w) = Some (ok, w_end) \<Longrightarrow>
   (\<exists>w'. prepareProcessor_loop n env w = Some (False, w') \<and> \<not> ok \<and>
         w_end = with_edges_below below w') \<or>
   (\<exists>w' k. k \<le> n \<and> prepareProcessor_loop n env w = Some (True, w') \<and>
           prepareProcessor_loop k env (with_edges_below below w') = Some (ok, w_end))"
proof (induction n arbitrary: w)
  case 0
  then show ?case by simp
next
  case (Suc n)
  show ?case
  proof (cases "updated_processors w = [] \<and> updated_edges w = []")
    case True
    then have "prepareProcessor_loop (Suc n) env w = Some (True, w)"
      by simp
    with Suc.prems show ?thesis
      by (intro disjI2 exI[of _ w] exI[of _ "Suc n"]) simp
  next
    case False
    obtain r w1 where body: "prepareProcessor_body env w = (r, w1)"
      by (cases "prepareProcessor_body env w")
    have body': "prepareProcessor_body env (with_edges_below below w) =
                   (r, with_edges_below below w1)"
      using prepareProcessor_body_below[OF False, of env below] body by simp
    have False': "\<not> (updated_processors (with_edges_below below w) = [] \<and>
                      updated_edges (with_edges_below below w) = [])"
      using False by auto
    note unf = prepareProcessor_loop_unfold[OF False' body', of n]
    note unf0 = prepareProcessor_loop_unfold[OF False body, of n]
    show ?thesis
    proof (cases r)
      case None
      with Suc.prems unf have
        "prepareProcessor_loop n env (with_edges_below below w1) = Some (ok, w_end)"
        by simp
      from Suc.IH[OF this] show ?thesis
      proof
        assume "\<exists>w'. prepareProcessor_loop n env w1 = Some (False, w') \<and> \<not> ok \<and>
                      w_end = with_edges_below below w'"
        then show ?thesis
          unfolding unf0 None by simp
      next
        assume "\<exists>w' k. k \<le> n \<and> prepareProcessor_loop n env w1 = Some (True, w') \<and>
                  prepareProcessor_loop k env (with_edges_below below w') = Some (ok, w_end)"
        then obtain w' k where "k \<le> n" "prepareProcessor_loop n env w1 = Some (True, w')"
          "prepareProcessor_loop k env (with_edges_below below w') = Some (ok, w_end)"
          by blast
        then have "k \<le> Suc n \<and> prepareProcessor_loop (Suc n) env w = Some (True, w') \<and>
                   prepareProcessor_loop k env (with_edges_below below w') = Some (ok, w_end)"
          unfolding unf0 None by simp
        then show ?thesis by blast
      qed
    next
      case (Some b)
      have b: "b = False"
        using Some body prepareProcessor_body_not_Some_True[of env w] by (cases b) simp_all
      from Suc.prems unf Some b have "ok = False" "w_end = with_edges_below below w1"
        by simp_all
      moreover have "prepareProcessor_loop (Suc n) env w = Some (False, w1)"
        unfolding unf0 Some b by simp
      ultimately show ?thesis by blast
    qed
  qed
qed

lemma deliver_in_order_mono:
  "deliver_in_order n env edges w = Some r \<Longrightarrow> n \<le> m \<Longrightarrow>
   deliver_in_order m env edges w = Some r"
proof (induction edges arbitrary: w)
  case Nil
  then show ?case by simp
next
  case (Cons e es)
  let ?v = "notify_edge env (w\<lparr>updated_edges := [e]\<rparr>)"
  from Cons.prems(1) obtain ok w' where l: "prepareProcessor_loop n env ?v = Some (ok, w')"
    by (cases "prepareProcessor_loop n env ?v") auto
  note l' = prepareProcessor_loop_mono[OF l Cons.prems(2)]
  show ?case
  proof (cases ok)
    case True
    with Cons.prems(1) l have "deliver_in_order n env es w' = Some r" by simp
    from Cons.IH[OF this Cons.prems(2)] l' True show ?thesis by simp
  next
    case False
    with Cons.prems(1) l l' show ?thesis by simp
  qed
qed

lemma with_edges_below_append:
  "with_edges_below (es @ below) w = with_edges_below below (with_edges_below es w)"
  by (simp add: with_edges_below_def)

lemma with_edges_below_reset:
  "updated_edges w = [] \<Longrightarrow> (with_edges_below below w)\<lparr>updated_edges := []\<rparr> = w"
proof -
  assume "updated_edges w = []"
  then have "w\<lparr>updated_edges := []\<rparr> = w\<lparr>updated_edges := updated_edges w\<rparr>"
    by simp
  then show ?thesis by (simp add: with_edges_below_def)
qed

lemma prepareProcessor_delivers_in_order:
  "updated_processors w = [] \<Longrightarrow> updated_edges w = batch @ below \<Longrightarrow>
   prepareProcessor_loop n env w = Some (ok, w_end) \<Longrightarrow>
   (\<exists>w2. deliver_in_order n env batch (w\<lparr>updated_edges := []\<rparr>) = Some (False, w2) \<and> \<not> ok \<and>
         w_end = with_edges_below below w2) \<or>
   (\<exists>w2 k. k \<le> n \<and>
           deliver_in_order n env batch (w\<lparr>updated_edges := []\<rparr>) = Some (True, w2) \<and>
           prepareProcessor_loop k env (with_edges_below below w2) = Some (ok, w_end))"
proof (induction batch arbitrary: w n)
  case Nil
  have "with_edges_below below (w\<lparr>updated_edges := []\<rparr>) = w"
    using Nil.prems(2) by (simp add: with_edges_below_def)
  with Nil.prems(3) show ?case
    by (intro disjI2 exI[of _ "w\<lparr>updated_edges := []\<rparr>"] exI[of _ n]) simp
next
  case (Cons e es)
  from Cons.prems(3) obtain m where n: "n = Suc m"
    by (cases n) simp_all
  let ?w0 = "w\<lparr>updated_edges := [e]\<rparr>"
  let ?v = "notify_edge env ?w0"
  have ne: "\<not> (updated_processors w = [] \<and> updated_edges w = [])"
    using Cons.prems(2) by simp
  have body: "prepareProcessor_body env w = (None, notify_edge env w)"
    using Cons.prems(1) by (simp add: prepareProcessor_body_def)
  have w_ext: "with_edges_below (es @ below) ?w0 = w"
    using Cons.prems(2) by (simp add: with_edges_below_def)
  have "notify_edge env (with_edges_below (es @ below) ?w0) = with_edges_below (es @ below) ?v"
    by (rule notify_edge_below) simp
  then have nv: "notify_edge env w = with_edges_below (es @ below) ?v"
    unfolding w_ext .
  have run1: "prepareProcessor_loop m env (with_edges_below (es @ below) ?v) = Some (ok, w_end)"
    using Cons.prems(3) prepareProcessor_loop_unfold[OF ne body, of m] nv unfolding n by simp
  have start: "(w\<lparr>updated_edges := []\<rparr>)\<lparr>updated_edges := [e]\<rparr> = ?w0"
    by simp
  from prepareProcessor_loop_below_any[OF run1] show ?case
  proof
    assume "\<exists>w'. prepareProcessor_loop m env ?v = Some (False, w') \<and> \<not> ok \<and>
                  w_end = with_edges_below (es @ below) w'"
    then obtain w' where l: "prepareProcessor_loop m env ?v = Some (False, w')"
      and r: "\<not> ok" "w_end = with_edges_below (es @ below) w'"
      by blast
    have "prepareProcessor_loop n env ?v = Some (False, w')"
      using prepareProcessor_loop_mono[OF l, of n] n by simp
    then have "deliver_in_order n env (e # es) (w\<lparr>updated_edges := []\<rparr>) =
                 Some (False, with_edges_below es w')"
      by (simp add: start)
    with r show ?thesis
      unfolding with_edges_below_append by blast
  next
    assume "\<exists>w' k. k \<le> m \<and> prepareProcessor_loop m env ?v = Some (True, w') \<and>
              prepareProcessor_loop k env (with_edges_below (es @ below) w') = Some (ok, w_end)"
    then obtain w' k where k: "k \<le> m"
      and l: "prepareProcessor_loop m env ?v = Some (True, w')"
      and l2: "prepareProcessor_loop k env (with_edges_below (es @ below) w') = Some (ok, w_end)"
      by blast
    note empty = prepareProcessor_loop_True_empty[OF l]
    have ln: "prepareProcessor_loop n env ?v = Some (True, w')"
      using prepareProcessor_loop_mono[OF l, of n] n by simp
    have d: "deliver_in_order n env (e # es) (w\<lparr>updated_edges := []\<rparr>) =
               deliver_in_order n env es w'"
      using ln by (simp add: start)
    have x1: "updated_processors (with_edges_below (es @ below) w') = []"
      and x2: "updated_edges (with_edges_below (es @ below) w') = es @ below"
      using empty by simp_all
    have x3: "(with_edges_below (es @ below) w')\<lparr>updated_edges := []\<rparr> = w'"
      using empty by (simp add: with_edges_below_reset)
    have kn: "k \<le> n" using k n by simp
    from Cons.IH[OF x1 x2 l2, unfolded x3] show ?thesis
    proof
      assume "\<exists>w2. deliver_in_order k env es w' = Some (False, w2) \<and> \<not> ok \<and>
                    w_end = with_edges_below below w2"
      then obtain w2 where "deliver_in_order k env es w' = Some (False, w2)"
        and r: "\<not> ok" "w_end = with_edges_below below w2"
        by blast
      from deliver_in_order_mono[OF this(1) kn] r show ?thesis
        unfolding d by blast
    next
      assume "\<exists>w2 k'. k' \<le> k \<and> deliver_in_order k env es w' = Some (True, w2) \<and>
                prepareProcessor_loop k' env (with_edges_below below w2) = Some (ok, w_end)"
      then obtain w2 k' where k': "k' \<le> k"
        and dd: "deliver_in_order k env es w' = Some (True, w2)"
        and l3: "prepareProcessor_loop k' env (with_edges_below below w2) = Some (ok, w_end)"
        by blast
      have "k' \<le> n" using k' kn by simp
      with deliver_in_order_mono[OF dd kn] l3 show ?thesis
        unfolding d by blast
    qed
  qed
qed

lemma notify_edge_delivers:
  assumes "updated_edges v = edge # es"
  shows "updated_edges (notify_edge env v) = es \<and>
         queue (notify_edge env v) = queue v \<and>
         async_queue (notify_edge env v) = async_queue v \<and>
         (status (nodes (executor v) ! to edge) = Finished \<longrightarrow>
            executor (notify_edge env v) = executor v \<and>
            updated_processors (notify_edge env v) = updated_processors v) \<and>
         (status (nodes (executor v) ! to edge) \<noteq> Finished \<longrightarrow>
            nodes (executor (notify_edge env v)) =
              (nodes (executor v))
                [to edge := (nodes (executor v) ! to edge)
                   \<lparr>updated_input_ports :=
                      updated_input_ports (nodes (executor v) ! to edge) @
                      (if backward edge then [] else [input_port_number edge]),
                    updated_output_ports :=
                      updated_output_ports (nodes (executor v) ! to edge) @
                      (if backward edge then [output_port_number edge] else []),
                    status := (if status (nodes (executor v) ! to edge) = Idle then Preparing
                               else status (nodes (executor v) ! to edge))\<rparr>] \<and>
            updated_processors (notify_edge env v) =
              (if status (nodes (executor v) ! to edge) = Idle
               then to edge # updated_processors v else updated_processors v) \<and>
            heap (executor (notify_edge env v)) =
              (if status (nodes (executor v) ! to edge) = Idle then heap (executor v)
               else IProcessor_onUpdatePorts env (heap (executor v))
                      (processor (nodes (executor v) ! to edge))) \<and>
            processors (executor (notify_edge env v)) = processors (executor v))"
proof (cases "backward edge"; cases "status (nodes (executor v) ! to edge) = Idle";
       cases "status (nodes (executor v) ! to edge) = Finished")
qed (use assms in \<open>simp_all add: notify_edge_def Let_def\<close>)


text \<open>
  C2. A \<^verbatim>\<open>prepare\<close> that returns a status other than \<^verbatim>\<open>ExpandPipeline\<close> leaves the stack of
  edges with the node's dirty input edges on top, in their order, then its dirty output
  edges, in their order, then what the stack held; both dirty lists of the node are
  empty afterwards. The rest of the pass, whatever its result, is then this: the walks of
  the nodes that were staged before are run; then the edges of the batch are delivered
  one at a time, every input edge and then every output edge, in their order, each
  followed by the whole walk that it starts; then the pass goes on with the edges that
  were on the stack before. A walk that returns false ends the pass where it stands.
  Delivering an edge is what the loop does when it pops one: an edge whose destination
  has finished is dropped; otherwise its port number is appended to the pending output
  ports (for a backward edge) or input ports of the destination, and the destination is
  staged if it was idle, or else its processor is told by \<^verbatim>\<open>onUpdatePorts\<close>. In a pass that
  returns true, the edges popped are thus the batch in its order, each edge followed by
  the edges popped because of it, between the edges popped before and after.
\<close>

theorem dirty_inputs_notified_before_outputs:
  assumes stack: "updated_processors w = pid # rest"
    and pid: "pid < length (nodes (executor w))"
    and call: "call_prepare env (heap (executor w)) (nodes (executor w) ! pid) =
                 (Returns st, heap1, node1)"
    and st: "st \<noteq> ExpandPipeline"
    and run: "prepareProcessor_loop n env (snd (prepare_node env w)) = Some (ok, w_end)"
  shows "updated_edges (snd (prepare_node env w)) =
           post_updated_input_ports node1 @ post_updated_output_ports node1 @ updated_edges w \<and>
         post_updated_input_ports (nodes (executor (snd (prepare_node env w))) ! pid) = [] \<and>
         post_updated_output_ports (nodes (executor (snd (prepare_node env w))) ! pid) = [] \<and>
         ((\<exists>u'. prepareProcessor_loop n env ((snd (prepare_node env w))\<lparr>updated_edges := []\<rparr>) =
                   Some (False, u') \<and>
                 \<not> ok \<and>
                 w_end = with_edges_below
                   (post_updated_input_ports node1 @ post_updated_output_ports node1 @
                    updated_edges w) u') \<or>
          (\<exists>u' w2. prepareProcessor_loop n env ((snd (prepare_node env w))\<lparr>updated_edges := []\<rparr>) =
                      Some (True, u') \<and>
                    deliver_in_order n env
                      (post_updated_input_ports node1 @ post_updated_output_ports node1) u' =
                      Some (False, w2) \<and>
                    \<not> ok \<and> w_end = with_edges_below (updated_edges w) w2) \<or>
          (\<exists>u' w2 k. k \<le> n \<and>
                    prepareProcessor_loop n env ((snd (prepare_node env w))\<lparr>updated_edges := []\<rparr>) =
                      Some (True, u') \<and>
                    deliver_in_order n env
                      (post_updated_input_ports node1 @ post_updated_output_ports node1) u' =
                      Some (True, w2) \<and>
                    prepareProcessor_loop k env (with_edges_below (updated_edges w) w2) =
                      Some (ok, w_end))) \<and>
         (\<forall>v edge es. updated_edges v = edge # es \<longrightarrow>
            updated_edges (notify_edge env v) = es \<and>
            queue (notify_edge env v) = queue v \<and>
            async_queue (notify_edge env v) = async_queue v \<and>
            (status (nodes (executor v) ! to edge) = Finished \<longrightarrow>
               executor (notify_edge env v) = executor v \<and>
               updated_processors (notify_edge env v) = updated_processors v) \<and>
            (status (nodes (executor v) ! to edge) \<noteq> Finished \<longrightarrow>
               nodes (executor (notify_edge env v)) =
                 (nodes (executor v))
                   [to edge := (nodes (executor v) ! to edge)
                      \<lparr>updated_input_ports :=
                         updated_input_ports (nodes (executor v) ! to edge) @
                         (if backward edge then [] else [input_port_number edge]),
                       updated_output_ports :=
                         updated_output_ports (nodes (executor v) ! to edge) @
                         (if backward edge then [output_port_number edge] else []),
                       status := (if status (nodes (executor v) ! to edge) = Idle then Preparing
                                  else status (nodes (executor v) ! to edge))\<rparr>] \<and>
               updated_processors (notify_edge env v) =
                 (if status (nodes (executor v) ! to edge) = Idle
                  then to edge # updated_processors v else updated_processors v) \<and>
               heap (executor (notify_edge env v)) =
                 (if status (nodes (executor v) ! to edge) = Idle then heap (executor v)
                  else IProcessor_onUpdatePorts env (heap (executor v))
                         (processor (nodes (executor v) ! to edge))) \<and>
               processors (executor (notify_edge env v)) = processors (executor v))) \<and>
         (ok \<longrightarrow>
            (\<exists>before segs after.
               length segs =
                 length (post_updated_input_ports node1 @ post_updated_output_ports node1) \<and>
               notified n env (snd (prepare_node env w)) =
                 before @
                 concat (map2 (#)
                   (post_updated_input_ports node1 @ post_updated_output_ports node1) segs) @
                 after))"
proof -
  let ?w1 = "snd (prepare_node env w)"
  let ?batch = "post_updated_input_ports node1 @ post_updated_output_ports node1"
  let ?u = "?w1\<lparr>updated_edges := []\<rparr>"
  note step = prepare_node_not_expand[OF stack call st]
  have edges: "updated_edges ?w1 = ?batch @ updated_edges w"
    and cleared: "post_updated_input_ports (nodes (executor ?w1) ! pid) = []"
      "post_updated_output_ports (nodes (executor ?w1) ! pid) = []"
    using step pid by simp_all
  have w1: "?w1 = with_edges_below (?batch @ updated_edges w) ?u"
    using edges by (simp add: with_edges_below_def)
  have run': "prepareProcessor_loop n env (with_edges_below (?batch @ updated_edges w) ?u) =
                Some (ok, w_end)"
    using run w1 by simp
  have order:
    "(\<exists>u'. prepareProcessor_loop n env ?u = Some (False, u') \<and> \<not> ok \<and>
           w_end = with_edges_below (?batch @ updated_edges w) u') \<or>
     (\<exists>u' w2. prepareProcessor_loop n env ?u = Some (True, u') \<and>
              deliver_in_order n env ?batch u' = Some (False, w2) \<and>
              \<not> ok \<and> w_end = with_edges_below (updated_edges w) w2) \<or>
     (\<exists>u' w2 k. k \<le> n \<and> prepareProcessor_loop n env ?u = Some (True, u') \<and>
              deliver_in_order n env ?batch u' = Some (True, w2) \<and>
              prepareProcessor_loop k env (with_edges_below (updated_edges w) w2) =
                Some (ok, w_end))"
    using prepareProcessor_loop_below_any[OF run']
  proof
    assume "\<exists>w'. prepareProcessor_loop n env ?u = Some (False, w') \<and> \<not> ok \<and>
                  w_end = with_edges_below (?batch @ updated_edges w) w'"
    then show ?thesis by blast
  next
    assume "\<exists>w' k. k \<le> n \<and> prepareProcessor_loop n env ?u = Some (True, w') \<and>
              prepareProcessor_loop k env (with_edges_below (?batch @ updated_edges w) w') =
                Some (ok, w_end)"
    then obtain u' k where k: "k \<le> n"
      and l: "prepareProcessor_loop n env ?u = Some (True, u')"
      and l2: "prepareProcessor_loop k env (with_edges_below (?batch @ updated_edges w) u') =
                 Some (ok, w_end)"
      by blast
    note empty = prepareProcessor_loop_True_empty[OF l]
    have x1: "updated_processors (with_edges_below (?batch @ updated_edges w) u') = []"
      and x2: "updated_edges (with_edges_below (?batch @ updated_edges w) u') =
                 ?batch @ updated_edges w"
      using empty by simp_all
    have x3: "(with_edges_below (?batch @ updated_edges w) u')\<lparr>updated_edges := []\<rparr> = u'"
      using empty by (simp add: with_edges_below_reset)
    from prepareProcessor_delivers_in_order[OF x1 x2 l2, unfolded x3] show ?thesis
    proof
      assume "\<exists>w2. deliver_in_order k env ?batch u' = Some (False, w2) \<and> \<not> ok \<and>
                    w_end = with_edges_below (updated_edges w) w2"
      then obtain w2 where d: "deliver_in_order k env ?batch u' = Some (False, w2)"
        and r: "\<not> ok" "w_end = with_edges_below (updated_edges w) w2"
        by blast
      from deliver_in_order_mono[OF d k] l r show ?thesis by blast
    next
      assume "\<exists>w2 k'. k' \<le> k \<and> deliver_in_order k env ?batch u' = Some (True, w2) \<and>
                prepareProcessor_loop k' env (with_edges_below (updated_edges w) w2) =
                  Some (ok, w_end)"
      then obtain w2 k' where k': "k' \<le> k"
        and d: "deliver_in_order k env ?batch u' = Some (True, w2)"
        and l3: "prepareProcessor_loop k' env (with_edges_below (updated_edges w) w2) =
                   Some (ok, w_end)"
        by blast
      have "k' \<le> n" using k k' by simp
      with deliver_in_order_mono[OF d k] l l3 show ?thesis by blast
    qed
  qed
  have trace: "\<exists>before segs after. length segs = length ?batch \<and>
      notified n env ?w1 = before @ concat (map2 (#) ?batch segs) @ after" if ok
  proof -
    from run' that have runT:
      "prepareProcessor_loop n env (with_edges_below (?batch @ updated_edges w) ?u) =
         Some (True, w_end)"
      by simp
    from prepareProcessor_loop_below[OF runT]
    obtain u' k where
      l1: "prepareProcessor_loop n env ?u = Some (True, u')"
      and l2: "prepareProcessor_loop k env (with_edges_below (?batch @ updated_edges w) u') =
                 Some (True, w_end)"
      and tr: "notified n env (with_edges_below (?batch @ updated_edges w) ?u) =
                 notified n env ?u @
                 notified k env (with_edges_below (?batch @ updated_edges w) u')"
      by blast
    from prepareProcessor_loop_True_empty[OF l1]
    have "updated_processors (with_edges_below (?batch @ updated_edges w) u') = []"
      and "updated_edges (with_edges_below (?batch @ updated_edges w) u') =
             ?batch @ updated_edges w"
      by simp_all
    from prepareProcessor_delivers_batch[OF this l2] obtain segs tail where
      "length segs = length ?batch"
      "notified k env (with_edges_below (?batch @ updated_edges w) u') =
         concat (map2 (#) ?batch segs) @ tail"
      by blast
    with tr w1 show ?thesis
      by metis
  qed
  have deliver: "\<forall>v edge es. updated_edges v = edge # es \<longrightarrow>
            updated_edges (notify_edge env v) = es \<and>
            queue (notify_edge env v) = queue v \<and>
            async_queue (notify_edge env v) = async_queue v \<and>
            (status (nodes (executor v) ! to edge) = Finished \<longrightarrow>
               executor (notify_edge env v) = executor v \<and>
               updated_processors (notify_edge env v) = updated_processors v) \<and>
            (status (nodes (executor v) ! to edge) \<noteq> Finished \<longrightarrow>
               nodes (executor (notify_edge env v)) =
                 (nodes (executor v))
                   [to edge := (nodes (executor v) ! to edge)
                      \<lparr>updated_input_ports :=
                         updated_input_ports (nodes (executor v) ! to edge) @
                         (if backward edge then [] else [input_port_number edge]),
                       updated_output_ports :=
                         updated_output_ports (nodes (executor v) ! to edge) @
                         (if backward edge then [output_port_number edge] else []),
                       status := (if status (nodes (executor v) ! to edge) = Idle then Preparing
                                  else status (nodes (executor v) ! to edge))\<rparr>] \<and>
               updated_processors (notify_edge env v) =
                 (if status (nodes (executor v) ! to edge) = Idle
                  then to edge # updated_processors v else updated_processors v) \<and>
               heap (executor (notify_edge env v)) =
                 (if status (nodes (executor v) ! to edge) = Idle then heap (executor v)
                  else IProcessor_onUpdatePorts env (heap (executor v))
                         (processor (nodes (executor v) ! to edge))) \<and>
               processors (executor (notify_edge env v)) = processors (executor v))"
    by (intro allI impI, rule notify_edge_delivers)
  have e1: "updated_edges ?w1 =
           post_updated_input_ports node1 @ post_updated_output_ports node1 @ updated_edges w"
    using edges by simp
  have order': "(\<exists>u'. prepareProcessor_loop n env ?u = Some (False, u') \<and> \<not> ok \<and>
           w_end = with_edges_below (post_updated_input_ports node1 @
                     post_updated_output_ports node1 @ updated_edges w) u') \<or>
     (\<exists>u' w2. prepareProcessor_loop n env ?u = Some (True, u') \<and>
              deliver_in_order n env ?batch u' = Some (False, w2) \<and>
              \<not> ok \<and> w_end = with_edges_below (updated_edges w) w2) \<or>
     (\<exists>u' w2 k. k \<le> n \<and> prepareProcessor_loop n env ?u = Some (True, u') \<and>
              deliver_in_order n env ?batch u' = Some (True, w2) \<and>
              prepareProcessor_loop k env (with_edges_below (updated_edges w) w2) =
                Some (ok, w_end))"
    using order by simp
  show ?thesis
    using e1 cleared order' deliver trace by blast
qed


theorem dirty_inputs_notified_before_outputs_witness:
  "updated_edges (snd (prepare_node (scripted_env (Inr [])) (walk_at 1 chain))) =
     [to_source, to_last] \<and>
   (\<exists>w2 w_end k. k \<le> 10 \<and>
      deliver_in_order 10 (scripted_env (Inr [])) [to_source, to_last]
        ((snd (prepare_node (scripted_env (Inr [])) (walk_at 1 chain)))\<lparr>updated_edges := []\<rparr>) =
        Some (True, w2) \<and>
      prepareProcessor_loop 10 (scripted_env (Inr []))
        (snd (prepare_node (scripted_env (Inr [])) (walk_at 1 chain))) = Some (True, w_end) \<and>
      prepareProcessor_loop k (scripted_env (Inr [])) w2 = Some (True, w_end)) \<and>
   updated_edges (notify_edge (scripted_env (Inr []))
     (snd (prepare_node (scripted_env (Inr [])) (walk_at 1 chain)))) = [to_last] \<and>
   updated_processors (notify_edge (scripted_env (Inr []))
     (snd (prepare_node (scripted_env (Inr [])) (walk_at 1 chain)))) = [0] \<and>
   map (\<lambda>node. (status node, updated_input_ports node, updated_output_ports node))
     (nodes (executor (notify_edge (scripted_env (Inr []))
        (snd (prepare_node (scripted_env (Inr [])) (walk_at 1 chain)))))) =
     [(Preparing, [], [0]), (Idle, [], []), (Idle, [], [])] \<and>
   (\<exists>before segs after. length segs = length [to_source, to_last] \<and>
      notified 10 (scripted_env (Inr []))
        (snd (prepare_node (scripted_env (Inr [])) (walk_at 1 chain))) =
      before @ concat (map2 (#) [to_source, to_last] segs) @ after)"
proof -
  let ?env = "scripted_env (Inr [])"
  let ?w = "walk_at 1 chain"
  let ?w1 = "snd (prepare_node ?env ?w)"
  let ?u = "?w1\<lparr>updated_edges := []\<rparr>"
  have stack: "updated_processors ?w = 1 # []" and pid: "1 < length (nodes (executor ?w))"
    by (simp_all add: walk_at_def chain_def fresh_executor_def)
  obtain h1 n1 where
    call: "call_prepare ?env (heap (executor ?w)) (nodes (executor ?w) ! 1) =
             (Returns NeedData, h1, n1)"
    by (cases "call_prepare ?env (heap (executor ?w)) (nodes (executor ?w) ! 1)")
       (auto simp: call_prepare_def scripted_env_def walk_at_def chain_def
          fresh_executor_def fresh_node_def)
  then have n1: "post_updated_input_ports n1 = [to_source]"
    "post_updated_output_ports n1 = [to_last]"
    by (auto simp: call_prepare_def scripted_env_def walk_at_def chain_def
          fresh_executor_def fresh_node_def)
  have st: "NeedData \<noteq> ExpandPipeline"
    by simp
  have "map_option fst (prepareProcessor_loop 10 ?env ?w1) = Some True"
    by code_simp
  then obtain w_end where run: "prepareProcessor_loop 10 ?env ?w1 = Some (True, w_end)"
    by (auto simp: map_option_case split: option.splits)
  note t = dirty_inputs_notified_before_outputs[OF stack pid call st run, unfolded n1]
  have old: "updated_edges ?w = []"
    by (simp add: walk_at_def)
  have A: "updated_edges ?w1 = [to_source, to_last]"
    using t old by simp
  have staged: "map_option fst (prepareProcessor_loop 10 ?env ?u) = Some True"
    by code_simp
  have delivered: "map_option fst (deliver_in_order 10 ?env [to_source, to_last] ?u) = Some True"
    by code_simp
  have same: "prepareProcessor_loop 10 ?env ?u = Some (True, ?u)"
  proof -
    have "updated_processors ?u = []"
      using prepare_node_not_expand[OF stack call st] by simp
    then show ?thesis
      by (simp add: numeral_eq_Suc)
  qed
  from t have
    "(\<exists>u'. prepareProcessor_loop 10 ?env ?u = Some (False, u') \<and> \<not> True \<and>
           w_end = with_edges_below ([to_source] @ [to_last] @ updated_edges ?w) u') \<or>
     (\<exists>u' w2. prepareProcessor_loop 10 ?env ?u = Some (True, u') \<and>
              deliver_in_order 10 ?env ([to_source] @ [to_last]) u' = Some (False, w2) \<and>
              \<not> True \<and> w_end = with_edges_below (updated_edges ?w) w2) \<or>
     (\<exists>u' w2 k. k \<le> 10 \<and> prepareProcessor_loop 10 ?env ?u = Some (True, u') \<and>
              deliver_in_order 10 ?env ([to_source] @ [to_last]) u' = Some (True, w2) \<and>
              prepareProcessor_loop k ?env (with_edges_below (updated_edges ?w) w2) =
                Some (True, w_end))"
    by blast
  then obtain u' w2 k where k: "k \<le> 10"
    and l: "prepareProcessor_loop 10 ?env ?u = Some (True, u')"
    and d: "deliver_in_order 10 ?env ([to_source] @ [to_last]) u' = Some (True, w2)"
    and l2: "prepareProcessor_loop k ?env (with_edges_below (updated_edges ?w) w2) =
               Some (True, w_end)"
    by auto
  from l same have u': "u' = ?u" by simp
  have "with_edges_below (updated_edges ?w) w2 = w2"
    unfolding old by (simp add: with_edges_below_def)
  with k d l2 run have B: "\<exists>w2 w_end k. k \<le> 10 \<and>
      deliver_in_order 10 ?env [to_source, to_last] ?u = Some (True, w2) \<and>
      prepareProcessor_loop 10 ?env ?w1 = Some (True, w_end) \<and>
      prepareProcessor_loop k ?env w2 = Some (True, w_end)"
    unfolding u' by auto
  have top: "updated_edges ?w1 = to_source # [to_last]"
    using A by simp
  have dest: "nodes (executor ?w1) =
      [fresh_node 0 [to_sink] [],
       (fresh_node 1 [to_last] [to_source])\<lparr>last_processor_status := NeedData\<rparr>,
       fresh_node 2 [] [to_transform]]"
    "updated_processors ?w1 = []"
    using prepare_node_not_expand[OF stack call st] call
    by (auto simp: call_prepare_def scripted_env_def walk_at_def chain_def
          fresh_executor_def fresh_node_def transition_table_def)
  from t have "\<forall>v edge es. updated_edges v = edge # es \<longrightarrow>
            updated_edges (notify_edge ?env v) = es \<and>
            queue (notify_edge ?env v) = queue v \<and>
            async_queue (notify_edge ?env v) = async_queue v \<and>
            (status (nodes (executor v) ! to edge) = Finished \<longrightarrow>
               executor (notify_edge ?env v) = executor v \<and>
               updated_processors (notify_edge ?env v) = updated_processors v) \<and>
            (status (nodes (executor v) ! to edge) \<noteq> Finished \<longrightarrow>
               nodes (executor (notify_edge ?env v)) =
                 (nodes (executor v))
                   [to edge := (nodes (executor v) ! to edge)
                      \<lparr>updated_input_ports :=
                         updated_input_ports (nodes (executor v) ! to edge) @
                         (if backward edge then [] else [input_port_number edge]),
                       updated_output_ports :=
                         updated_output_ports (nodes (executor v) ! to edge) @
                         (if backward edge then [output_port_number edge] else []),
                       status := (if status (nodes (executor v) ! to edge) = Idle then Preparing
                                  else status (nodes (executor v) ! to edge))\<rparr>] \<and>
               updated_processors (notify_edge ?env v) =
                 (if status (nodes (executor v) ! to edge) = Idle
                  then to edge # updated_processors v else updated_processors v) \<and>
               heap (executor (notify_edge ?env v)) =
                 (if status (nodes (executor v) ! to edge) = Idle then heap (executor v)
                  else IProcessor_onUpdatePorts ?env (heap (executor v))
                         (processor (nodes (executor v) ! to edge))) \<and>
               processors (executor (notify_edge ?env v)) = processors (executor v))"
    by blast
  from this[rule_format, OF top] dest
  have C: "updated_edges (notify_edge ?env ?w1) = [to_last]"
    "updated_processors (notify_edge ?env ?w1) = [0]"
    "map (\<lambda>node. (status node, updated_input_ports node, updated_output_ports node))
       (nodes (executor (notify_edge ?env ?w1))) =
     [(Preparing, [], [0]), (Idle, [], []), (Idle, [], [])]"
    by (simp_all add: to_source_def fresh_node_def)
  from t have D: "\<exists>before segs after. length segs = length [to_source, to_last] \<and>
      notified 10 ?env ?w1 = before @ concat (map2 (#) [to_source, to_last] segs) @ after"
    by simp
  from A B C D show ?thesis
    by blast
qed

subsection \<open>The exception slot of a node\<close>

lemma slots_kept_but_refl: "slots_kept_but P ns ns"
  by (simp add: slots_kept_but_def)

lemma slots_kept_but_trans:
  "slots_kept_but P ns ns1 \<Longrightarrow> slots_kept_but Q ns1 ns2 \<Longrightarrow> slots_kept_but (P \<union> Q) ns ns2"
  by (auto simp: slots_kept_but_def)

lemma slots_kept_update:
  "exception node = exception (ns ! p) \<Longrightarrow> slots_kept_but {} ns (ns[p := node])"
  unfolding slots_kept_but_def
proof (intro conjI allI impI)
  fix i assume "exception node = exception (ns ! p)" "i < length ns"
  then show "exception (ns[p := node] ! i) = exception (ns ! i)"
    by (cases "i = p") simp_all
qed simp

lemma slots_kept_but_update: "slots_kept_but {p} ns (ns[p := node])"
  by (auto simp: slots_kept_but_def nth_list_update)

lemma stage_updated_node_slots:
  "stage_updated_node bs ds u (stack, ns) = (stack', ns') \<Longrightarrow> slots_kept_but {} ns ns'"
  by (auto simp: stage_updated_node_def Let_def split: if_splits intro!: slots_kept_update)

lemma fold_stage_slots:
  "fold (stage_updated_node bs ds) us (stack, ns) = (stack', ns') \<Longrightarrow> slots_kept_but {} ns ns'"
proof (induction us arbitrary: stack ns)
  case Nil
  then show ?case by (simp add: slots_kept_but_refl)
next
  case (Cons u us)
  obtain stack1 ns1 where s1: "stage_updated_node bs ds u (stack, ns) = (stack1, ns1)"
    by (cases "stage_updated_node bs ds u (stack, ns)")
  from Cons.prems s1 have "fold (stage_updated_node bs ds) us (stack1, ns1) = (stack', ns')"
    by simp
  from slots_kept_but_trans[OF stage_updated_node_slots[OF s1] Cons.IH[OF this]]
  show ?case by simp
qed

lemma expandPipeline_slots:
  assumes "keeps_exceptions env" and "expandPipeline env stack pid s = (expanded, stack', s')"
  shows "slots_kept_but (if expanded then {} else {pid}) (nodes s) (nodes s')"
proof (cases "IProcessor_expandPipeline env (heap s) (processor (nodes s ! pid))")
  case (Pair result hx)
  show ?thesis
  proof (cases result)
    case (Inl e)
    from expandPipeline_Inl[OF Pair[unfolded Inl], of stack] assms(2) show ?thesis
      by (auto simp: slots_kept_but_update)
  next
    case (Inr new)
    obtain nodes1 updated_nodes where
      g: "ExecutingGraph_expandPipeline env (hx @ new)
           (processors s @ [length hx ..< length hx + length new]) (nodes s) =
         (nodes1, updated_nodes)"
      by (cases "ExecutingGraph_expandPipeline env (hx @ new)
           (processors s @ [length hx ..< length hx + length new]) (nodes s)")
    obtain stack2 nodes2 where
      f: "fold (stage_updated_node
                 (edge_sizes back_edges (length (processors s) + length new) (nodes s))
                 (edge_sizes direct_edges (length (processors s) + length new) (nodes s)))
           updated_nodes (stack, nodes1) = (stack2, nodes2)"
      by (cases "fold (stage_updated_node
                 (edge_sizes back_edges (length (processors s) + length new) (nodes s))
                 (edge_sizes direct_edges (length (processors s) + length new) (nodes s)))
           updated_nodes (stack, nodes1)")
    have k: "slots_kept_but {} (nodes s) nodes1"
      using assms(1) g unfolding keeps_exceptions_def slots_kept_but_def
      by (metis fst_conv)
    from expandPipeline_Inr[OF Pair[unfolded Inr] g f] assms(2)
    have "expanded" "nodes s' = nodes2" by auto
    with slots_kept_but_trans[OF k fold_stage_slots[OF f]] show ?thesis
      by simp
  qed
qed

lemma notify_edge_slots:
  "slots_kept_but {} (nodes (executor w)) (nodes (executor (notify_edge env w)))"
  by (auto simp: notify_edge_def Let_def slots_kept_but_refl split: list.splits
      intro!: slots_kept_update)

lemma call_prepare_exception:
  "call_prepare env h node = (out, h1, node1) \<Longrightarrow>
   exception node1 = (case out of Throws e \<Rightarrow> Some e | Returns st \<Rightarrow> exception node)"
  by (auto simp: call_prepare_def Let_def split: prod.splits prepare_outcome.splits)

lemma prepare_node_slots:
  assumes "keeps_exceptions env" and "prepare_node env w = (r, w')"
  shows "\<exists>P. (r = None \<longrightarrow> P = {}) \<and> (\<exists>p. P \<subseteq> {p}) \<and>
             slots_kept_but P (nodes (executor w)) (nodes (executor w'))"
proof (cases "updated_processors w")
  case Nil
  with assms(2) show ?thesis
    by (auto simp: prepare_node_def slots_kept_but_refl)
next
  case (Cons pid rest)
  obtain out h1 n1 where
    call: "call_prepare env (heap (executor w)) (nodes (executor w) ! pid) = (out, h1, n1)"
    by (cases "call_prepare env (heap (executor w)) (nodes (executor w) ! pid)")
  show ?thesis
  proof (cases out)
    case (Throws e)
    with assms(2) Cons call have "r = Some False"
      "nodes (executor w') = (nodes (executor w))[pid := n1]"
      by (auto simp: prepare_node_def Let_def)
    then show ?thesis
      using slots_kept_but_update[of pid "nodes (executor w)" n1]
      by (intro exI[of _ "{pid}"]) auto
  next
    case (Returns st)
    note ex = call_prepare_exception[OF call, unfolded Returns, simplified]
    show ?thesis
    proof (cases "st = ExpandPipeline")
      case False
      from prepare_node_not_expand[OF Cons call[unfolded Returns] False] assms(2)
      have "nodes (executor w') = (nodes (executor w))
             [pid := n1\<lparr>status := transition_table st (status n1),
                           post_updated_input_ports := [],
                           post_updated_output_ports := []\<rparr>]"
        by auto
      then have "slots_kept_but {} (nodes (executor w)) (nodes (executor w'))"
        using ex by (simp add: slots_kept_update)
      then show ?thesis by blast
    next
      case True
      let ?s1 = "(executor w)\<lparr>heap := h1, nodes := (nodes (executor w))[pid := n1]\<rparr>"
      obtain expanded stk s1 where e: "expandPipeline env rest pid ?s1 = (expanded, stk, s1)"
        by (cases "expandPipeline env rest pid ?s1")
      from prepare_node_expand[OF Cons call[unfolded Returns True] e] assms(2)
      have res: "executor w' = s1" "r = (if expanded then None else Some False)" by auto
      have k1: "slots_kept_but {} (nodes (executor w)) (nodes ?s1)"
        using ex by (simp add: slots_kept_update)
      from slots_kept_but_trans[OF k1 expandPipeline_slots[OF assms(1) e]] res
      have "slots_kept_but (if expanded then {} else {pid})
              (nodes (executor w)) (nodes (executor w'))"
        by simp
      with res show ?thesis
        by (intro exI[of _ "if expanded then {} else {pid}"]) auto
    qed
  qed
qed

lemma prepareProcessor_body_slots:
  assumes "keeps_exceptions env" and "prepareProcessor_body env w = (r, w')"
  shows "\<exists>P. (r = None \<longrightarrow> P = {}) \<and> (\<exists>p. P \<subseteq> {p}) \<and>
             slots_kept_but P (nodes (executor w)) (nodes (executor w'))"
proof (cases "updated_processors w = []")
  case True
  with assms(2) have "r = None" "w' = notify_edge env w"
    by (simp_all add: prepareProcessor_body_def)
  with notify_edge_slots[of w env] show ?thesis by blast
next
  case False
  with assms(2) have "prepare_node env w = (r, w')"
    by (simp add: prepareProcessor_body_def)
  from prepare_node_slots[OF assms(1) this] show ?thesis .
qed

lemma prepareProcessor_loop_slots:
  assumes "keeps_exceptions env"
  shows "prepareProcessor_loop fuel env w = Some (ok, w') \<Longrightarrow>
   \<exists>P. (ok \<longrightarrow> P = {}) \<and> (\<exists>p. P \<subseteq> {p}) \<and>
       slots_kept_but P (nodes (executor w)) (nodes (executor w'))"
proof (induction fuel arbitrary: w)
  case 0
  then show ?case by simp
next
  case (Suc fuel)
  show ?case
  proof (cases "updated_processors w = [] \<and> updated_edges w = []")
    case True
    with Suc.prems have "w' = w" by simp
    then show ?thesis using slots_kept_but_refl by blast
  next
    case False
    obtain r w1 where body: "prepareProcessor_body env w = (r, w1)"
      by (cases "prepareProcessor_body env w")
    from prepareProcessor_body_slots[OF assms body] obtain P where
      P: "r = None \<longrightarrow> P = {}" "\<exists>p. P \<subseteq> {p}"
         "slots_kept_but P (nodes (executor w)) (nodes (executor w1))"
      by blast
    show ?thesis
    proof (cases r)
      case None
      with Suc.prems False body have "prepareProcessor_loop fuel env w1 = Some (ok, w')"
        by simp
      from Suc.IH[OF this] obtain Q where
        Q: "ok \<longrightarrow> Q = {}" "\<exists>p. Q \<subseteq> {p}"
           "slots_kept_but Q (nodes (executor w1)) (nodes (executor w'))"
        by blast
      from None P(1) have "P = {}" by simp
      with slots_kept_but_trans[OF P(3) Q(3)] Q(1,2) show ?thesis
        by auto
    next
      case (Some b)
      with Suc.prems False body have "ok = b" "w' = w1" by simp_all
      moreover have "\<not> b"
        using prepareProcessor_body_not_Some_True body Some by (metis fst_conv)
      ultimately show ?thesis
        using P by blast
    qed
  qed
qed

lemma keeps_exceptions_scripted: "keeps_exceptions (scripted_env expansion)"
  by (simp add: keeps_exceptions_def scripted_env_def)

text \<open>
  C6, as the code has it. The slot of a node holds one exception, the latest: a
  \<^verbatim>\<open>prepare\<close> or an \<^verbatim>\<open>expandPipeline()\<close> that throws is stored in the slot of its node
  by a plain assignment, whatever the slot held. What one call of \<^verbatim>\<open>prepareProcessor\<close>
  does to the slots is limited by its stopping at the first failure: a call that returns
  true has changed no slot, and a call that returns false has changed at most one (given
  that the expansion of the graph keeps the slots of the nodes it finds).
\<close>

theorem exception_slot_is_overwritten:
  assumes keeps: "keeps_exceptions env"
    and run: "prepareProcessor_loop fuel env w = Some (ok, w')"
  shows "length (nodes (executor w)) \<le> length (nodes (executor w')) \<and>
         (ok \<longrightarrow> (\<forall>i<length (nodes (executor w)).
                  exception (nodes (executor w') ! i) = exception (nodes (executor w) ! i))) \<and>
         (\<exists>p. \<forall>i<length (nodes (executor w)). i \<noteq> p \<longrightarrow>
                  exception (nodes (executor w') ! i) = exception (nodes (executor w) ! i)) \<and>
         (\<forall>pid rest e h1 n1.
            updated_processors w = pid # rest \<and> pid < length (nodes (executor w)) \<and>
            call_prepare env (heap (executor w)) (nodes (executor w) ! pid) = (Throws e, h1, n1) \<longrightarrow>
            \<not> ok \<and> exception (nodes (executor w') ! pid) = Some e) \<and>
         (\<forall>pid rest e h1 n1 hx.
            updated_processors w = pid # rest \<and> pid < length (nodes (executor w)) \<and>
            call_prepare env (heap (executor w)) (nodes (executor w) ! pid) =
              (Returns ExpandPipeline, h1, n1) \<and>
            IProcessor_expandPipeline env h1 (processor n1) = (Inl e, hx) \<longrightarrow>
            \<not> ok \<and> exception (nodes (executor w') ! pid) = Some e)"
proof -
  from prepareProcessor_loop_slots[OF keeps run] obtain P where
    P: "ok \<longrightarrow> P = {}" "\<exists>p. P \<subseteq> {p}"
       "slots_kept_but P (nodes (executor w)) (nodes (executor w'))"
    by blast
  have A: "length (nodes (executor w)) \<le> length (nodes (executor w'))"
    using P(3) by (simp add: slots_kept_but_def)
  have B: "\<forall>i<length (nodes (executor w)).
             exception (nodes (executor w') ! i) = exception (nodes (executor w) ! i)" if ok
    using P(1,3) that by (simp add: slots_kept_but_def)
  from P(2) obtain p where "P \<subseteq> {p}" by blast
  with P(3) have "\<forall>i<length (nodes (executor w)). i \<noteq> p \<longrightarrow>
             exception (nodes (executor w') ! i) = exception (nodes (executor w) ! i)"
    by (auto simp: slots_kept_but_def)
  then have C: "\<exists>p. \<forall>i<length (nodes (executor w)). i \<noteq> p \<longrightarrow>
             exception (nodes (executor w') ! i) = exception (nodes (executor w) ! i)"
    by blast
  from run obtain m where fuel: "fuel = Suc m"
    by (cases fuel) simp_all
  have first: "ok = b \<and> w' = w1"
    if "updated_processors w = pid # rest" "prepare_node env w = (Some b, w1)" for pid rest b w1
    using run that unfolding fuel by (simp add: prepareProcessor_body_def)
  have D: "\<not> ok \<and> exception (nodes (executor w') ! pid) = Some e"
    if "updated_processors w = pid # rest" "pid < length (nodes (executor w))"
      "call_prepare env (heap (executor w)) (nodes (executor w) ! pid) = (Throws e, h1, n1)"
    for pid rest e h1 n1
  proof -
    have "prepare_node env w =
            (Some False,
             w\<lparr>executor := (executor w)\<lparr>heap := h1, nodes := (nodes (executor w))[pid := n1]\<rparr>,
               updated_processors := rest\<rparr>)"
      using that(1,3) by (simp add: prepare_node_def Let_def)
    from first[OF that(1) this] that(2) call_prepare_exception[OF that(3)]
    show ?thesis by simp
  qed
  have E: "\<not> ok \<and> exception (nodes (executor w') ! pid) = Some e"
    if "updated_processors w = pid # rest" "pid < length (nodes (executor w))"
      "call_prepare env (heap (executor w)) (nodes (executor w) ! pid) =
         (Returns ExpandPipeline, h1, n1)"
      "IProcessor_expandPipeline env h1 (processor n1) = (Inl e, hx)"
    for pid rest e h1 n1 hx
  proof -
    let ?s1 = "(executor w)\<lparr>heap := h1, nodes := (nodes (executor w))[pid := n1]\<rparr>"
    have x: "IProcessor_expandPipeline env (heap ?s1) (processor (nodes ?s1 ! pid)) = (Inl e, hx)"
      using that(2,4) by simp
    from prepare_node_expand[OF that(1,3) expandPipeline_Inl[OF x, of rest]]
    have "prepare_node env w =
            (Some False,
             w\<lparr>executor := ?s1\<lparr>heap := hx,
                  nodes := (nodes ?s1)[pid := (nodes ?s1 ! pid)\<lparr>exception := Some e\<rparr>]\<rparr>,
               updated_processors := rest\<rparr>)"
      by simp
    from first[OF that(1) this] that(2) show ?thesis by simp
  qed
  show ?thesis
    using A B C D E by blast
qed

theorem exception_slot_is_overwritten_witness:
  "exception (nodes failed_once ! 0) = Some 1 \<and>
   map_option (\<lambda>(ok, w'). (ok, exception (nodes (executor w') ! 0)))
     (prepareProcessor 5 (scripted_env (Inr [])) 0 [] [] failed_once) = Some (False, Some 2)"
proof -
  let ?env = "scripted_env (Inr [])"
  let ?w = "\<lparr>executor = failed_once, queue = [], async_queue = [], updated_edges = [],
             updated_processors = push 0 []\<rparr>"
  have "map_option fst (prepareProcessor_loop 5 ?env ?w) = Some False"
    by code_simp
  then obtain w' where run: "prepareProcessor_loop 5 ?env ?w = Some (False, w')"
    by (auto simp: map_option_case split: option.splits)
  obtain h1 n1 where
    call: "call_prepare ?env (heap (executor ?w)) (nodes (executor ?w) ! 0) = (Throws 2, h1, n1)"
    by (cases "call_prepare ?env (heap (executor ?w)) (nodes (executor ?w) ! 0)")
       (auto simp: call_prepare_def scripted_env_def failed_once_def one_node_def
          fresh_executor_def fresh_node_def)
  have "updated_processors ?w = 0 # []" "0 < length (nodes (executor ?w))"
    by (simp_all add: push_def failed_once_def)
  with exception_slot_is_overwritten[OF keeps_exceptions_scripted run] call
  have "exception (nodes (executor w') ! 0) = Some 2"
    by blast
  moreover have "exception (nodes failed_once ! 0) = Some 1"
    by (simp add: failed_once_def)
  ultimately show ?thesis
    using run by (simp add: prepareProcessor_def)
qed

text \<open>
  C6 as stated fails: the slot is not sticky. A processor throws from \<^verbatim>\<open>prepare\<close> during
  initialisation, and its exception (1) is stored on the node; \<^verbatim>\<open>execute\<close> rethrows
  it. When the executor is run again, initialisation prepares the node again, the
  processor throws again, and the slot holds the new exception (2). The same in one
  step: a node whose slot holds 1 and whose \<^verbatim>\<open>prepare\<close> throws 2 ends with 2.
\<close>

theorem exception_slot_counterexample:
  "(case initializeExecution 5 (scripted_env (Inr [])) 1
           (one_node [(Throws 1, [], []), (Throws 2, [], [])]) of
      None \<Rightarrow> False
    | Some (out, q, aq, s1) \<Rightarrow>
        out = Inr () \<and> exception (nodes s1 ! 0) = Some 1 \<and>
        (case initializeExecution 5 (scripted_env (Inr [])) 1 s1 of
           None \<Rightarrow> False
         | Some (out2, q2, aq2, s2) \<Rightarrow> exception (nodes s2 ! 0) = Some 2)) \<and>
   exception (nodes failed_once ! 0) = Some 1 \<and>
   (case prepare_node (scripted_env (Inr [])) (walk_at 0 failed_once) of
      (r, w') \<Rightarrow> r = Some False \<and> exception (nodes (executor w') ! 0) = Some 2)"
  by code_simp

end
